theory Spec2Isabelle
  imports Complex_Main
begin

section \<open>Errors raised by the reader\<close>

text \<open>
  The exceptions that the modelled part of \<^verbatim>\<open>sqlite_reader_new.py\<close> can raise.
  \<open>ValueError\<close> comes from \<^verbatim>\<open>list.index\<close> and from the format-version check of
  \<^verbatim>\<open>_load\<close>, \<open>TypeError\<close> from unpacking a row that \<^verbatim>\<open>fetchone\<close> returned as
  \<^verbatim>\<open>None\<close>, \<open>OperationalError\<close> from a query on a table that does not exist,
  \<open>UnboundLocalError\<close> from reading a decoded array that no version branch assigned, and
  \<open>DecodeError\<close> stands for whatever the external decoders raise. \<open>CaseNotFound\<close> is
  the error that the specification names for a failed lookup; no statement of the source
  raises it.
\<close>

datatype error =
  ValueError | TypeError | OperationalError | UnboundLocalError | DecodeError | CaseNotFound

section \<open>Iteration coordinates\<close>

text \<open>
  \<^verbatim>\<open>_coord_split_re = re.compile('\|\\d+\|*')\<close>: a pipe, one or more digits, any number
  of pipes. A match starts at a pipe that is followed by a digit; the digits and then the
  pipes are taken greedily (the two character classes are disjoint, so no backtracking
  changes the match). \<^verbatim>\<open>split\<close> returns the pieces between the matches, scanning from
  the left.
\<close>

definition isdigit :: "char \<Rightarrow> bool" where
  "isdigit c = (c \<in> set ''0123456789'')"

definition ispipe :: "char \<Rightarrow> bool" where
  "ispipe c = (c = CHR ''|'')"

function split_from :: "string \<Rightarrow> string \<Rightarrow> string list" where
  "split_from seg [] = [seg]"
| "split_from seg (c # cs) =
     (if ispipe c \<and> (case cs of [] \<Rightarrow> False | d # _ \<Rightarrow> isdigit d)
      then seg # split_from [] (dropWhile ispipe (dropWhile isdigit cs))
      else split_from (seg @ [c]) cs)"
  by pat_completeness auto
termination
proof (relation "measure (\<lambda>(seg, s). length s)")
  fix seg :: string and c :: char and cs :: string
  have "length (dropWhile ispipe (dropWhile isdigit cs)) \<le> length cs"
    by (meson length_dropWhile_le order_trans)
  then show "((([]::string), dropWhile ispipe (dropWhile isdigit cs)), (seg, c # cs))
              \<in> measure (\<lambda>(seg, s). length s)"
    by simp
qed simp_all

definition coord_split :: "string \<Rightarrow> string list" where
  "coord_split s = split_from [] s"

text \<open>\<^verbatim>\<open>coordinate.startswith(parent_coordinate)\<close>.\<close>

fun startswith :: "string \<Rightarrow> string \<Rightarrow> bool" where
  "startswith s [] = True"
| "startswith [] (p # ps) = False"
| "startswith (c # cs) (p # ps) = (c = p \<and> startswith cs ps)"

section \<open>The coordinate hierarchy resolver\<close>

text \<open>The second component of the tuples that \<^verbatim>\<open>_find_child_cases\<close> returns.\<close>

datatype iter_type = Driver | Solver

text \<open>\<^verbatim>\<open>list.index(x)\<close>: the first position of \<open>x\<close>, \<open>ValueError\<close> when absent.\<close>

fun list_index :: "int list \<Rightarrow> int \<Rightarrow> error + nat" where
  "list_index [] x = Inl ValueError"
| "list_index (y # ys) x =
     (if y = x then Inr 0
      else (case list_index ys x of Inl e \<Rightarrow> Inl e | Inr i \<Rightarrow> Inr (Suc i)))"

text \<open>
  The first three statements of \<^verbatim>\<open>_find_child_cases\<close>:
  \<^verbatim>\<open>par_len_idx = coord_lengths.index(par_len if par_len is not 0 else 2)\<close> and
  \<^verbatim>\<open>expected_child_length = coord_lengths[par_len_idx + 1] if par_len_idx <
  len(coord_lengths) - 1 else -1\<close>. \<^verbatim>\<open>par_len is not 0\<close> compares with the one object
  that CPython keeps for 0, so it is the inequality of the values.
\<close>

definition expected_child_length :: "int list \<Rightarrow> string list \<Rightarrow> error + int" where
  "expected_child_length coord_lengths split_parent_iter_coord =
     (let par_len = int (length split_parent_iter_coord) in
      case list_index coord_lengths (if par_len \<noteq> 0 then par_len else 2) of
        Inl e \<Rightarrow> Inl e
      | Inr par_len_idx \<Rightarrow>
          Inr (if int par_len_idx < int (length coord_lengths) - 1
               then coord_lengths ! (par_len_idx + 1) else - 1))"

text \<open>
  \<^verbatim>\<open>a is b\<close> for two integers that were computed apart, as the result of \<^verbatim>\<open>len\<close> and
  an entry of \<^verbatim>\<open>coord_lengths\<close> are: CPython keeps one object for each integer from -5
  to 256, so the two are the same object when they are equal and in that range; a larger
  result of \<^verbatim>\<open>len\<close> is a new object, identical to no other.
\<close>

definition is_int :: "int \<Rightarrow> int \<Rightarrow> bool" where
  "is_int a b = (a = b \<and> - 5 \<le> a \<and> a \<le> 256)"

text \<open>
  \<^verbatim>\<open>_is_case_child\<close>: \<^verbatim>\<open>coordinate.startswith(parent_coordinate) and len(split_coord) is
  expected_child_length\<close>.
\<close>

definition is_case_child :: "string \<Rightarrow> string \<Rightarrow> int \<Rightarrow> bool" where
  "is_case_child parent_coordinate coordinate expected_len =
     (let split_coord = coord_split coordinate in
      startswith coordinate parent_coordinate
      \<and> is_int (int (length split_coord)) expected_len)"

text \<open>
  The three loops of \<^verbatim>\<open>_find_child_cases\<close> have one shape: for each element that passes
  the test, append its tagged coordinate, then (when recursing) its descendants. An
  exception in a recursive call leaves the loop at once.
\<close>

fun gather ::
  "('a \<Rightarrow> bool) \<Rightarrow> ('a \<Rightarrow> 'b) \<Rightarrow> ('a \<Rightarrow> (error + 'b list) option) \<Rightarrow> 'a list
     \<Rightarrow> (error + 'b list) option" where
  "gather keep tag sub [] = Some (Inr [])"
| "gather keep tag sub (x # xs) =
     (if keep x then
        (case sub x of
           None \<Rightarrow> None
         | Some (Inl e) \<Rightarrow> Some (Inl e)
         | Some (Inr ds) \<Rightarrow>
             (case gather keep tag sub xs of
                None \<Rightarrow> None
              | Some (Inl e) \<Rightarrow> Some (Inl e)
              | Some (Inr ret) \<Rightarrow> Some (Inr (tag x # ds @ ret))))
      else gather keep tag sub xs)"

text \<open>
  \<^verbatim>\<open>_find_child_cases\<close>. The recursion of the source has no bound of its own, so the
  model counts the depth left: \<open>None\<close> means that the depth was used up. The root is
  recognised by \<^verbatim>\<open>parent_iter_coord is ''\<close>, and CPython keeps one empty string. The
  first layer of solver iterations is found by \<^verbatim>\<open>len(split_coord) is min_iter_len\<close>,
  an identity test of integers like the one of \<^verbatim>\<open>_is_case_child\<close>. The rows of
  \<^verbatim>\<open>driver_iter\<close> are 1-tuples (modelled by their only component), those of
  \<^verbatim>\<open>solver_iter\<close> are pairs of a coordinate and a counter.
\<close>

fun find_child_cases ::
  "nat \<Rightarrow> string \<Rightarrow> string list \<Rightarrow> string list \<Rightarrow> (string \<times> int) list \<Rightarrow> bool \<Rightarrow> int list
     \<Rightarrow> (error + (string \<times> iter_type) list) option" where
  "find_child_cases 0 parent_iter_coord split_parent_iter_coord driver_iter solver_iter
     recursive coord_lengths = None"
| "find_child_cases (Suc depth) parent_iter_coord split_parent_iter_coord driver_iter solver_iter
     recursive coord_lengths =
     (case expected_child_length coord_lengths split_parent_iter_coord of
        Inl e \<Rightarrow> Some (Inl e)
      | Inr expected_len \<Rightarrow>
          if parent_iter_coord = [] then
            (if 0 < length driver_iter then
               gather (\<lambda>d. True) (\<lambda>d. (d, Driver))
                 (\<lambda>d. if recursive
                       then find_child_cases depth d (coord_split d) driver_iter solver_iter
                              recursive coord_lengths
                       else Some (Inr []))
                 driver_iter
             else if 0 < length solver_iter then
               gather
                 (\<lambda>s. is_int (int (length (coord_split (fst s))))
                        (if 1 < length coord_lengths then coord_lengths ! 1 else - 1))
                 (\<lambda>s. (fst s, Solver))
                 (\<lambda>s. if recursive
                       then find_child_cases depth (fst s) (coord_split (fst s)) driver_iter
                              solver_iter recursive coord_lengths
                       else Some (Inr []))
                 solver_iter
             else Some (Inr []))
          else
            gather (\<lambda>s. is_case_child parent_iter_coord (fst s) expected_len)
              (\<lambda>s. (fst s, Solver))
              (\<lambda>s. if recursive
                    then find_child_cases depth (fst s) (coord_split (fst s)) driver_iter
                           solver_iter recursive coord_lengths
                    else Some (Inr []))
              solver_iter)"

text \<open>
  The loop of \<^verbatim>\<open>get_cases\<close> that builds \<^verbatim>\<open>coord_lengths\<close>: start from \<^verbatim>\<open>[2]\<close>,
  append the segment count of each solver coordinate that is not in the list yet, sort.
\<close>

definition coord_lengths_of :: "(string \<times> int) list \<Rightarrow> int list" where
  "coord_lengths_of solver_iter =
     sort (foldl (\<lambda>coord_lengths s.
                    (let s_len = int (length (coord_split (fst s))) in
                     if s_len \<notin> set coord_lengths then coord_lengths @ [s_len]
                     else coord_lengths))
                 [2] solver_iter)"


section \<open>The store\<close>

text \<open>
  A row of an iteration table is the tuple
  \<^verbatim>\<open>(id, counter, iteration_coordinate, timestamp, success, msg, ...)\<close>; the columns after
  \<open>msg\<close> differ from table to table and are the component \<open>cols\<close>: the encoded inputs and
  outputs of a driver row, \<^verbatim>\<open>abs_err, rel_err\<close> and the encoded inputs, outputs and
  residuals of a solver row, the encoded outputs of a problem row (whose third column is
  the case name). A table is the list of its rows in the order in which a query without
  \<^verbatim>\<open>ORDER BY\<close> returns them; \<open>None\<close> is a table that does not exist.
\<close>

record 'x tbl_row =
  idx :: int
  counter :: int
  iteration_coordinate :: string
  timestamp :: real
  success :: int
  msg :: string
  cols :: 'x

record db =
  format_version :: int
  driver_iterations :: "(string \<times> string) tbl_row list option"
  driver_derivatives :: "string tbl_row list option"
  system_iterations :: "(string \<times> string \<times> string) tbl_row list option"
  solver_iterations :: "(real \<times> real \<times> string \<times> string \<times> string) tbl_row list option"
  problem_cases :: "string tbl_row list option"
  driver_metadata :: "string list option"
  system_metadata :: "(string \<times> string \<times> string) list option"
  solver_metadata :: "(string \<times> string \<times> string) list option"

text \<open>
  A Case object keeps what its constructor was given: the counter, the coordinate (or
  case name), timestamp, success flag and message of the row, and the decoded arrays
  (\<open>vals\<close>). The file name and the shared name maps are the same for every case of a
  reader and are left out.
\<close>

record 'y case_obj =
  case_counter :: int
  case_iteration_coordinate :: string
  case_timestamp :: real
  case_success :: int
  case_msg :: string
  vals :: 'y

text \<open>
  What the reader imports from modules that are not part of this file: the two value
  decoders, the two deserialisers of the metadata tables, \<^verbatim>\<open>DriverCase.scale\<close>,
  \<^verbatim>\<open>BaseCases.get_iteration_coordinate\<close> and the recorder's current
  \<^verbatim>\<open>format_version\<close>. They are parameters of the model.
\<close>

record ('v, 'm) deps =
  json_to_np_array :: "string \<Rightarrow> error + 'v"
  blob_to_array :: "string \<Rightarrow> error + 'v"
  json_loads :: "string \<Rightarrow> error + 'm"
  pickle_loads :: "string \<Rightarrow> error + 'm"
  scale :: "('v \<times> 'v) case_obj \<Rightarrow> ('v \<times> 'v) case_obj"
  get_iteration_coordinate :: "string \<Rightarrow> string"
  recorder_format_version :: int

text \<open>
  The state of one category store (\<^verbatim>\<open>BaseCases\<close>): the Case objects it has constructed,
  a reference to an object being its position in \<open>objs\<close>, and the dictionary
  \<^verbatim>\<open>_cases\<close> from coordinates to references. \<open>decodes\<close> is not an attribute of the
  source: it counts the rows that \<^verbatim>\<open>_extract_case_from_row\<close> has turned into a Case,
  so that a statement can say that a call decoded nothing.
\<close>

record 'c cases_state =
  objs :: "'c list"
  cached :: "string \<rightharpoonup> nat"
  decodes :: nat

text \<open>
  \<^verbatim>\<open>cur.fetchone()\<close> after \<^verbatim>\<open>SELECT * FROM t WHERE iteration_coordinate = :c\<close>: the first
  matching row or \<^verbatim>\<open>None\<close>; the query fails when the table does not exist.
\<close>

definition fetchone :: "'x tbl_row list option \<Rightarrow> string \<Rightarrow> error + 'x tbl_row option" where
  "fetchone tbl c =
     (case tbl of
        None \<Rightarrow> Inl OperationalError
      | Some rows \<Rightarrow> Inr (find (\<lambda>r. iteration_coordinate r = c) rows))"

text \<open>
  The version dispatch of the \<^verbatim>\<open>_extract_case_from_row\<close> methods for one encoded column:
  \<^verbatim>\<open>json_to_np_array\<close> from version 3 on, \<^verbatim>\<open>blob_to_array\<close> for versions 1 and 2; for
  any other version no branch assigns the array and the constructor call reads an unbound
  local.
\<close>

definition decode :: "('v, 'm) deps \<Rightarrow> int \<Rightarrow> string \<Rightarrow> error + 'v" where
  "decode d version text =
     (if 3 \<le> version then json_to_np_array d text
      else if version = 1 \<or> version = 2 then blob_to_array d text
      else Inl UnboundLocalError)"

definition mk_case :: "'x tbl_row \<Rightarrow> 'y \<Rightarrow> 'y case_obj" where
  "mk_case r arrays =
     \<lparr> case_counter = counter r, case_iteration_coordinate = iteration_coordinate r,
       case_timestamp = timestamp r, case_success = success r, case_msg = msg r,
       vals = arrays \<rparr>"

text \<open>
  \<^verbatim>\<open>DriverCases._extract_case_from_row\<close>. The row is what \<^verbatim>\<open>fetchone\<close> returned:
  unpacking \<^verbatim>\<open>None\<close> raises \<open>TypeError\<close> before anything is decoded.
\<close>

definition driver_extract_case_from_row ::
  "('v, 'm) deps \<Rightarrow> int \<Rightarrow> (string \<times> string) tbl_row option \<Rightarrow> error + ('v \<times> 'v) case_obj" where
  "driver_extract_case_from_row d version row =
     (case row of
        None \<Rightarrow> Inl TypeError
      | Some r \<Rightarrow>
          (case cols r of (inputs_text, outputs_text) \<Rightarrow>
             (case decode d version inputs_text of
                Inl e \<Rightarrow> Inl e
              | Inr inputs_array \<Rightarrow>
                  (case decode d version outputs_text of
                     Inl e \<Rightarrow> Inl e
                   | Inr outputs_array \<Rightarrow> Inr (mk_case r (inputs_array, outputs_array))))))"

text \<open>\<^verbatim>\<open>SolverCases._extract_case_from_row\<close>.\<close>

definition solver_extract_case_from_row ::
  "('v, 'm) deps \<Rightarrow> int \<Rightarrow> (real \<times> real \<times> string \<times> string \<times> string) tbl_row option
     \<Rightarrow> error + (real \<times> real \<times> 'v \<times> 'v \<times> 'v) case_obj" where
  "solver_extract_case_from_row d version row =
     (case row of
        None \<Rightarrow> Inl TypeError
      | Some r \<Rightarrow>
          (case cols r of (abs_err, rel_err, input_text, output_text, residuals_text) \<Rightarrow>
             (case decode d version input_text of
                Inl e \<Rightarrow> Inl e
              | Inr input_array \<Rightarrow>
                  (case decode d version output_text of
                     Inl e \<Rightarrow> Inl e
                   | Inr output_array \<Rightarrow>
                       (case decode d version residuals_text of
                          Inl e \<Rightarrow> Inl e
                        | Inr residuals_array \<Rightarrow>
                            Inr (mk_case r (abs_err, rel_err, input_array, output_array,
                                            residuals_array)))))))"

text \<open>\<^verbatim>\<open>ProblemCases._extract_case_from_row\<close>.\<close>

definition problem_extract_case_from_row ::
  "('v, 'm) deps \<Rightarrow> int \<Rightarrow> string tbl_row option \<Rightarrow> error + 'v case_obj" where
  "problem_extract_case_from_row d version row =
     (case row of
        None \<Rightarrow> Inl TypeError
      | Some r \<Rightarrow>
          (case decode d version (cols r) of
             Inl e \<Rightarrow> Inl e
           | Inr outputs_array \<Rightarrow> Inr (mk_case r outputs_array)))"

text \<open>
  \<^verbatim>\<open>DriverCases.get_case(case_id, scaled)\<close>. A cached case is taken from \<^verbatim>\<open>_cases\<close>;
  otherwise the row is fetched, a Case is constructed from it and stored under its own
  coordinate. With \<^verbatim>\<open>scaled\<close> the result is a \<^verbatim>\<open>deepcopy\<close> (a new object) on which
  \<^verbatim>\<open>scale()\<close> has been called. An exception leaves the store as it was.
\<close>

definition driver_get_case ::
  "('v, 'm) deps \<Rightarrow> db \<Rightarrow> string \<Rightarrow> bool \<Rightarrow> ('v \<times> 'v) case_obj cases_state
     \<Rightarrow> (error + nat) \<times> ('v \<times> 'v) case_obj cases_state" where
  "driver_get_case d store case_id scaled st =
     (let coord = get_iteration_coordinate d case_id;
          looked_up =
            (case cached st coord of
               Some ref \<Rightarrow> Inr (ref, st)
             | None \<Rightarrow>
                 (case fetchone (driver_iterations store) coord of
                    Inl e \<Rightarrow> Inl e
                  | Inr row \<Rightarrow>
                      (case driver_extract_case_from_row d (format_version store) row of
                         Inl e \<Rightarrow> Inl e
                       | Inr c \<Rightarrow>
                           Inr (length (objs st),
                                st\<lparr> objs := objs st @ [c], decodes := Suc (decodes st),
                                    cached := (cached st)(case_iteration_coordinate c
                                                \<mapsto> length (objs st)) \<rparr>))))
      in case looked_up of
           Inl e \<Rightarrow> (Inl e, st)
         | Inr (ref, st1) \<Rightarrow>
             if scaled
             then (Inr (length (objs st1)), st1\<lparr> objs := objs st1 @ [scale d (objs st1 ! ref)] \<rparr>)
             else (Inr ref, st1))"

text \<open>\<^verbatim>\<open>SolverCases.get_case(case_id)\<close>: the new case is stored under the requested coordinate.\<close>

definition solver_get_case ::
  "('v, 'm) deps \<Rightarrow> db \<Rightarrow> string \<Rightarrow> (real \<times> real \<times> 'v \<times> 'v \<times> 'v) case_obj cases_state
     \<Rightarrow> (error + nat) \<times> (real \<times> real \<times> 'v \<times> 'v \<times> 'v) case_obj cases_state" where
  "solver_get_case d store case_id st =
     (let coord = get_iteration_coordinate d case_id in
      case cached st coord of
        Some ref \<Rightarrow> (Inr ref, st)
      | None \<Rightarrow>
          (case fetchone (solver_iterations store) coord of
             Inl e \<Rightarrow> (Inl e, st)
           | Inr row \<Rightarrow>
               (case solver_extract_case_from_row d (format_version store) row of
                  Inl e \<Rightarrow> (Inl e, st)
                | Inr c \<Rightarrow>
                    (Inr (length (objs st)),
                     st\<lparr> objs := objs st @ [c], decodes := Suc (decodes st),
                         cached := (cached st)(coord \<mapsto> length (objs st)) \<rparr>))))"

text \<open>\<^verbatim>\<open>ProblemCases.get_case(case_name)\<close>: the name is used as it is given.\<close>

definition problem_get_case ::
  "('v, 'm) deps \<Rightarrow> db \<Rightarrow> string \<Rightarrow> 'v case_obj cases_state
     \<Rightarrow> (error + nat) \<times> 'v case_obj cases_state" where
  "problem_get_case d store case_name st =
     (case cached st case_name of
        Some ref \<Rightarrow> (Inr ref, st)
      | None \<Rightarrow>
          (case fetchone (problem_cases store) case_name of
             Inl e \<Rightarrow> (Inl e, st)
           | Inr row \<Rightarrow>
               (case problem_extract_case_from_row d (format_version store) row of
                  Inl e \<Rightarrow> (Inl e, st)
                | Inr c \<Rightarrow>
                    (Inr (length (objs st)),
                     st\<lparr> objs := objs st @ [c], decodes := Suc (decodes st),
                         cached := (cached st)(case_name \<mapsto> length (objs st)) \<rparr>))))"

text \<open>
  \<^verbatim>\<open>DriverDerivativeCases._extract_case_from_row\<close>: the totals are always read with
  \<^verbatim>\<open>blob_to_array\<close>, whatever the format version.
\<close>

definition derivative_extract_case_from_row ::
  "('v, 'm) deps \<Rightarrow> string tbl_row option \<Rightarrow> error + 'v case_obj" where
  "derivative_extract_case_from_row d row =
     (case row of
        None \<Rightarrow> Inl TypeError
      | Some r \<Rightarrow>
          (case blob_to_array d (cols r) of
             Inl e \<Rightarrow> Inl e
           | Inr totals_array \<Rightarrow> Inr (mk_case r totals_array)))"

text \<open>
  \<^verbatim>\<open>DriverDerivativeCases.get_case(case_id)\<close>: the new case is stored under its own
  coordinate.
\<close>

definition derivative_get_case ::
  "('v, 'm) deps \<Rightarrow> db \<Rightarrow> string \<Rightarrow> 'v case_obj cases_state
     \<Rightarrow> (error + nat) \<times> 'v case_obj cases_state" where
  "derivative_get_case d store case_id st =
     (let coord = get_iteration_coordinate d case_id in
      case cached st coord of
        Some ref \<Rightarrow> (Inr ref, st)
      | None \<Rightarrow>
          (case fetchone (driver_derivatives store) coord of
             Inl e \<Rightarrow> (Inl e, st)
           | Inr row \<Rightarrow>
               (case derivative_extract_case_from_row d row of
                  Inl e \<Rightarrow> (Inl e, st)
                | Inr c \<Rightarrow>
                    (Inr (length (objs st)),
                     st\<lparr> objs := objs st @ [c], decodes := Suc (decodes st),
                         cached := (cached st)(case_iteration_coordinate c
                                     \<mapsto> length (objs st)) \<rparr>))))"

text \<open>\<^verbatim>\<open>SystemCases._extract_case_from_row\<close>.\<close>

definition system_extract_case_from_row ::
  "('v, 'm) deps \<Rightarrow> int \<Rightarrow> (string \<times> string \<times> string) tbl_row option
     \<Rightarrow> error + ('v \<times> 'v \<times> 'v) case_obj" where
  "system_extract_case_from_row d version row =
     (case row of
        None \<Rightarrow> Inl TypeError
      | Some r \<Rightarrow>
          (case cols r of (inputs_text, outputs_text, residuals_text) \<Rightarrow>
             (case decode d version inputs_text of
                Inl e \<Rightarrow> Inl e
              | Inr inputs_array \<Rightarrow>
                  (case decode d version outputs_text of
                     Inl e \<Rightarrow> Inl e
                   | Inr outputs_array \<Rightarrow>
                       (case decode d version residuals_text of
                          Inl e \<Rightarrow> Inl e
                        | Inr residuals_array \<Rightarrow>
                            Inr (mk_case r (inputs_array, outputs_array,
                                            residuals_array)))))))"

text \<open>
  \<^verbatim>\<open>SystemCases.get_case(case_id)\<close>: the new case is stored under its own coordinate.
\<close>

definition system_get_case ::
  "('v, 'm) deps \<Rightarrow> db \<Rightarrow> string \<Rightarrow> ('v \<times> 'v \<times> 'v) case_obj cases_state
     \<Rightarrow> (error + nat) \<times> ('v \<times> 'v \<times> 'v) case_obj cases_state" where
  "system_get_case d store case_id st =
     (let coord = get_iteration_coordinate d case_id in
      case cached st coord of
        Some ref \<Rightarrow> (Inr ref, st)
      | None \<Rightarrow>
          (case fetchone (system_iterations store) coord of
             Inl e \<Rightarrow> (Inl e, st)
           | Inr row \<Rightarrow>
               (case system_extract_case_from_row d (format_version store) row of
                  Inl e \<Rightarrow> (Inl e, st)
                | Inr c \<Rightarrow>
                    (Inr (length (objs st)),
                     st\<lparr> objs := objs st @ [c], decodes := Suc (decodes st),
                         cached := (cached st)(case_iteration_coordinate c
                                     \<mapsto> length (objs st)) \<rparr>))))"

text \<open>
  The \<^verbatim>\<open>cases()\<close> generators of \<^verbatim>\<open>DriverCases\<close> and \<^verbatim>\<open>ProblemCases\<close>: every row of the
  table, in the table's order, is turned into a new Case that replaces the cached one
  and is yielded. The model returns the yielded references as a list.
\<close>

fun all_cases ::
  "('x tbl_row option \<Rightarrow> error + 'c case_obj) \<Rightarrow> 'x tbl_row list \<Rightarrow> 'c case_obj cases_state
     \<Rightarrow> (error + nat list) \<times> 'c case_obj cases_state" where
  "all_cases extract [] st = (Inr [], st)"
| "all_cases extract (row # rows) st =
     (case extract (Some row) of
        Inl e \<Rightarrow> (Inl e, st)
      | Inr c \<Rightarrow>
          (case all_cases extract rows
                  (st\<lparr> objs := objs st @ [c], decodes := Suc (decodes st),
                       cached := (cached st)(case_iteration_coordinate c \<mapsto> length (objs st)) \<rparr>) of
             (Inl e, st') \<Rightarrow> (Inl e, st')
           | (Inr refs, st') \<Rightarrow> (Inr (length (objs st) # refs), st')))"

definition cases_gen ::
  "('x tbl_row option \<Rightarrow> error + 'c case_obj) \<Rightarrow> 'x tbl_row list option \<Rightarrow> 'c case_obj cases_state
     \<Rightarrow> (error + nat list) \<times> 'c case_obj cases_state" where
  "cases_gen extract tbl st =
     (case tbl of
        None \<Rightarrow> (Inl OperationalError, st)
      | Some rows \<Rightarrow> all_cases extract rows st)"

section \<open>The reader\<close>

record 'v reader =
  driver_cases :: "('v \<times> 'v) case_obj cases_state"
  solver_cases :: "(real \<times> real \<times> 'v \<times> 'v \<times> 'v) case_obj cases_state"
  problem_store :: "'v case_obj cases_state"

text \<open>A yielded case: a reference to an object of one of the three stores.\<close>

datatype case_ref = DriverCaseRef nat | SolverCaseRef nat | ProblemCaseRef nat

text \<open>
  The last loop of \<^verbatim>\<open>get_cases\<close>: a pair tagged \<^verbatim>\<open>'driver'\<close> is fetched from the driver
  store, any other from the solver store.
\<close>

fun yield_cases ::
  "('v, 'm) deps \<Rightarrow> db \<Rightarrow> (string \<times> iter_type) list \<Rightarrow> 'v reader
     \<Rightarrow> (error + case_ref list) \<times> 'v reader" where
  "yield_cases d store [] rd = (Inr [], rd)"
| "yield_cases d store (iteration # rest) rd =
     (if snd iteration = Driver then
        (case driver_get_case d store (fst iteration) False (driver_cases rd) of
           (Inl e, st) \<Rightarrow> (Inl e, rd\<lparr> driver_cases := st \<rparr>)
         | (Inr ref, st) \<Rightarrow>
             (case yield_cases d store rest (rd\<lparr> driver_cases := st \<rparr>) of
                (Inl e, rd') \<Rightarrow> (Inl e, rd')
              | (Inr refs, rd') \<Rightarrow> (Inr (DriverCaseRef ref # refs), rd')))
      else
        (case solver_get_case d store (fst iteration) (solver_cases rd) of
           (Inl e, st) \<Rightarrow> (Inl e, rd\<lparr> solver_cases := st \<rparr>)
         | (Inr ref, st) \<Rightarrow>
             (case yield_cases d store rest (rd\<lparr> solver_cases := st \<rparr>) of
                (Inl e, rd') \<Rightarrow> (Inl e, rd')
              | (Inr refs, rd') \<Rightarrow> (Inr (SolverCaseRef ref # refs), rd'))))"

text \<open>
  \<^verbatim>\<open>SqliteCaseReader.get_cases(source, recurse, flat)\<close>, the generator run to its end.
  \<^verbatim>\<open>flat\<close> is not read by the source. The two queries of the last branch are
  \<^verbatim>\<open>ORDER BY counter ASC\<close>; rows with equal counters keep the table's order here.
  The first component of the result is \<open>None\<close> when the depth given to
  \<open>find_child_cases\<close> was used up.
\<close>

definition get_cases ::
  "('v, 'm) deps \<Rightarrow> db \<Rightarrow> nat \<Rightarrow> string \<Rightarrow> bool \<Rightarrow> bool \<Rightarrow> 'v reader
     \<Rightarrow> (error + case_ref list) option \<times> 'v reader" where
  "get_cases d store depth source recurse flat rd =
     (if source = ''problem'' then
        (case cases_gen (problem_extract_case_from_row d (format_version store))
                (problem_cases store) (problem_store rd) of
           (Inl e, st) \<Rightarrow> (Some (Inl e), rd\<lparr> problem_store := st \<rparr>)
         | (Inr refs, st) \<Rightarrow> (Some (Inr (map ProblemCaseRef refs)), rd\<lparr> problem_store := st \<rparr>))
      else if source = ''driver'' then
        (case cases_gen (driver_extract_case_from_row d (format_version store))
                (driver_iterations store) (driver_cases rd) of
           (Inl e, st) \<Rightarrow> (Some (Inl e), rd\<lparr> driver_cases := st \<rparr>)
         | (Inr refs, st) \<Rightarrow> (Some (Inr (map DriverCaseRef refs)), rd\<lparr> driver_cases := st \<rparr>))
      else
        (case driver_iterations store of
           None \<Rightarrow> (Some (Inl OperationalError), rd)
         | Some driver_rows \<Rightarrow>
             (case solver_iterations store of
                None \<Rightarrow> (Some (Inl OperationalError), rd)
              | Some solver_rows \<Rightarrow>
                  (let iter_coord = source;
                       driver_iter = map iteration_coordinate (sort_key counter driver_rows);
                       solver_iter = map (\<lambda>r. (iteration_coordinate r, counter r))
                                         (sort_key counter solver_rows);
                       split_iter_coord = (if iter_coord \<noteq> [] then coord_split iter_coord else []);
                       coord_lengths = coord_lengths_of solver_iter
                   in case find_child_cases depth iter_coord split_iter_coord driver_iter
                             solver_iter recurse coord_lengths of
                        None \<Rightarrow> (None, rd)
                      | Some (Inl e) \<Rightarrow> (Some (Inl e), rd)
                      | Some (Inr iter_set) \<Rightarrow>
                          (case yield_cases d store iter_set rd of
                             (r, rd') \<Rightarrow> (Some r, rd'))))))"

text \<open>The counter of a yielded case, read from the object the reference points to.\<close>

fun counter_of :: "'v reader \<Rightarrow> case_ref \<Rightarrow> int" where
  "counter_of rd (DriverCaseRef a) = case_counter (objs (driver_cases rd) ! a)"
| "counter_of rd (SolverCaseRef a) = case_counter (objs (solver_cases rd) ! a)"
| "counter_of rd (ProblemCaseRef a) = case_counter (objs (problem_store rd) ! a)"

section \<open>Opening a store\<close>

text \<open>
  What \<^verbatim>\<open>_load\<close> leaves in the reader: the \<^verbatim>\<open>_case_keys\<close> of the five category
  stores and the three metadata attributes.
\<close>

record 'm loaded =
  driver_keys :: "string list"
  derivative_keys :: "string list"
  system_keys :: "string list"
  solver_keys :: "string list"
  problem_keys :: "string list"
  loaded_driver_metadata :: "'m option"
  loaded_system_metadata :: "string \<rightharpoonup> ('m \<times> 'm)"
  loaded_solver_metadata :: "string \<rightharpoonup> ('m \<times> string)"

text \<open>
  Modelled from the spec: the \<^verbatim>\<open>_case_keys\<close> of a category store before \<^verbatim>\<open>_load\<close>
  assigns them are set by \<^verbatim>\<open>BaseCases.__init__\<close>, which is not part of this file; the
  spec has the coordinate list of a store built at open, so it is empty until then.
\<close>

definition initial_case_keys :: "string list" where
  "initial_case_keys = []"

text \<open>
  \<^verbatim>\<open>SELECT iteration_coordinate FROM t ORDER BY id ASC\<close> (for the problem table the
  column is \<^verbatim>\<open>case_name\<close>); \<^verbatim>\<open>sqlite3.OperationalError\<close> when the table does not exist.
\<close>

definition keys_of :: "'x tbl_row list option \<Rightarrow> error + string list" where
  "keys_of tbl =
     (case tbl of
        None \<Rightarrow> Inl OperationalError
      | Some rows \<Rightarrow> Inr (map iteration_coordinate (sort_key idx rows)))"

text \<open>
  The two \<^verbatim>\<open>try\<close> blocks of \<^verbatim>\<open>_load\<close>: an \<open>OperationalError\<close> of the query is raised
  again when the format version is at least 2 and dropped otherwise, the keys staying
  what they were.
\<close>

definition keys_of_optional :: "int \<Rightarrow> 'x tbl_row list option \<Rightarrow> error + string list" where
  "keys_of_optional version tbl =
     (case keys_of tbl of
        Inl e \<Rightarrow> (if 2 \<le> version then Inl e else Inr initial_case_keys)
      | Inr ks \<Rightarrow> Inr ks)"

text \<open>
  \<^verbatim>\<open>SELECT model_viewer_data FROM driver_metadata\<close> and \<^verbatim>\<open>fetchone\<close>; the caller has
  checked that the version is at least 1.
\<close>

definition read_driver_metadata :: "('v, 'm) deps \<Rightarrow> int \<Rightarrow> string list option \<Rightarrow> error + 'm option" where
  "read_driver_metadata d version tbl =
     (case tbl of
        None \<Rightarrow> Inl OperationalError
      | Some [] \<Rightarrow> Inr None
      | Some (row # _) \<Rightarrow>
          (case (if 3 \<le> version then json_loads d row else pickle_loads d row) of
             Inl e \<Rightarrow> Inl e
           | Inr m \<Rightarrow> Inr (Some m)))"

fun read_system_rows ::
  "('v, 'm) deps \<Rightarrow> (string \<times> string \<times> string) list \<Rightarrow> (string \<rightharpoonup> ('m \<times> 'm))
     \<Rightarrow> error + (string \<rightharpoonup> ('m \<times> 'm))" where
  "read_system_rows d [] acc = Inr acc"
| "read_system_rows d ((ident, scaling_factors, component_metadata) # rows) acc =
     (case pickle_loads d scaling_factors of
        Inl e \<Rightarrow> Inl e
      | Inr sf \<Rightarrow>
          (case pickle_loads d component_metadata of
             Inl e \<Rightarrow> Inl e
           | Inr co \<Rightarrow> read_system_rows d rows (acc(ident \<mapsto> (sf, co)))))"

fun read_solver_rows ::
  "('v, 'm) deps \<Rightarrow> (string \<times> string \<times> string) list \<Rightarrow> (string \<rightharpoonup> ('m \<times> string))
     \<Rightarrow> error + (string \<rightharpoonup> ('m \<times> string))" where
  "read_solver_rows d [] acc = Inr acc"
| "read_solver_rows d ((ident, solver_options, solver_class) # rows) acc =
     (case pickle_loads d solver_options of
        Inl e \<Rightarrow> Inl e
      | Inr so \<Rightarrow> read_solver_rows d rows (acc(ident \<mapsto> (so, solver_class))))"

definition read_metadata_table ::
  "('r list \<Rightarrow> 'a \<Rightarrow> error + 'a) \<Rightarrow> 'r list option \<Rightarrow> 'a \<Rightarrow> error + 'a" where
  "read_metadata_table rd tbl acc =
     (case tbl of None \<Rightarrow> Inl OperationalError | Some rows \<Rightarrow> rd rows acc)"

text \<open>
  \<^verbatim>\<open>SqliteCaseReader._load\<close>. \<^verbatim>\<open>format_version in range(1, format_version + 1)\<close>
  compares the store's version with the recorder's current one.
\<close>

definition load :: "('v, 'm) deps \<Rightarrow> db \<Rightarrow> error + 'm loaded" where
  "load d store =
     (let version = format_version store in
      if 1 \<le> version \<and> version < recorder_format_version d + 1 then
        (case keys_of (driver_iterations store) of
           Inl e \<Rightarrow> Inl e
         | Inr dk \<Rightarrow>
        (case keys_of_optional version (driver_derivatives store) of
           Inl e \<Rightarrow> Inl e
         | Inr ddk \<Rightarrow>
        (case keys_of (system_iterations store) of
           Inl e \<Rightarrow> Inl e
         | Inr sk \<Rightarrow>
        (case keys_of (solver_iterations store) of
           Inl e \<Rightarrow> Inl e
         | Inr vk \<Rightarrow>
        (case keys_of_optional version (problem_cases store) of
           Inl e \<Rightarrow> Inl e
         | Inr pk \<Rightarrow>
        (case read_driver_metadata d version (driver_metadata store) of
           Inl e \<Rightarrow> Inl e
         | Inr dm \<Rightarrow>
        (case read_metadata_table (read_system_rows d) (system_metadata store) Map.empty of
           Inl e \<Rightarrow> Inl e
         | Inr sm \<Rightarrow>
        (case read_metadata_table (read_solver_rows d) (solver_metadata store) Map.empty of
           Inl e \<Rightarrow> Inl e
         | Inr vm \<Rightarrow>
             Inr \<lparr> driver_keys = dk, derivative_keys = ddk, system_keys = sk,
                   solver_keys = vk, problem_keys = pk, loaded_driver_metadata = dm,
                   loaded_system_metadata = sm, loaded_solver_metadata = vm \<rparr>))))))))
      else Inl ValueError)"

section \<open>The specification's wording\<close>

text \<open>
  Two notions that the specification uses and the source does not compute; they follow
  the specification's words and are compared with the source below.

  ``The smallest non-root length present'': the root stands for the base length 2, so a
  non-root length is a segment count other than 2 that some solver coordinate has, and
  \<open>n\<close> is the smallest of them.
\<close>

definition smallest_non_root_length :: "(string \<times> int) list \<Rightarrow> int \<Rightarrow> bool" where
  "smallest_non_root_length solver_iter n =
     (n \<noteq> 2 \<and> list_ex (\<lambda>s. int (length (coord_split (fst s))) = n) solver_iter
      \<and> list_all (\<lambda>s. int (length (coord_split (fst s))) = 2
                        \<or> n \<le> int (length (coord_split (fst s)))) solver_iter)"

text \<open>
  ``The sorted set of distinct segment counts observed across every category's
  coordinates, plus the base length'', from the coordinates of the driver,
  driver-derivative, system, solver and problem tables.
\<close>

definition spec_coord_lengths ::
  "string list \<Rightarrow> string list \<Rightarrow> string list \<Rightarrow> string list \<Rightarrow> string list \<Rightarrow> int list" where
  "spec_coord_lengths driver derivative system solver problem =
     sort (remdups (2 # map (\<lambda>c. int (length (coord_split c)))
                          (driver @ derivative @ system @ solver @ problem)))"

section \<open>Example stores\<close>

text \<open>
  Concrete dependencies and stores on which the theorems below are instantiated. The
  decoders of \<open>example_deps\<close> return the stored text, \<open>scale\<close> marks both arrays, and a case
  identifier is its own coordinate. \<open>sellar_store\<close> holds the first driver iteration of the
  run recorded by \<^verbatim>\<open>test_get_child_cases\<close>: the solver iteration is written first, then
  the system iteration, then the driver iteration.
\<close>

definition example_deps :: "(string, string) deps" where
  "example_deps =
     \<lparr> json_to_np_array = Inr, blob_to_array = Inr, json_loads = Inr, pickle_loads = Inr,
       scale = (\<lambda>c. c\<lparr> vals := (''scaled '' @ fst (vals c), ''scaled '' @ snd (vals c)) \<rparr>),
       get_iteration_coordinate = (\<lambda>case_id. case_id),
       recorder_format_version = 5 \<rparr>"

definition new_cases :: "'c cases_state" where
  "new_cases = \<lparr> objs = [], cached = Map.empty, decodes = 0 \<rparr>"

definition new_reader :: "'v reader" where
  "new_reader = \<lparr> driver_cases = new_cases, solver_cases = new_cases, problem_store = new_cases \<rparr>"

definition mk_row :: "int \<Rightarrow> int \<Rightarrow> string \<Rightarrow> 'x \<Rightarrow> 'x tbl_row" where
  "mk_row i n c x =
     \<lparr> idx = i, counter = n, iteration_coordinate = c, timestamp = 0, success = 1,
       msg = [], cols = x \<rparr>"

definition sellar_store :: db where
  "sellar_store =
     \<lparr> format_version = 3,
       driver_iterations = Some [mk_row 1 3 ''rank0:SLSQP|0'' (''{}'', ''{}'')],
       driver_derivatives = Some [],
       system_iterations =
         Some [mk_row 1 2 ''rank0:SLSQP|0|root._solve_nonlinear|0'' (''{}'', ''{}'', ''{}'')],
       solver_iterations =
         Some [mk_row 1 1 ''rank0:SLSQP|0|root._solve_nonlinear|0|NLRunOnce|0''
                 (0, 0, ''{}'', ''{}'', ''{}'')],
       problem_cases = Some [],
       driver_metadata = Some [],
       system_metadata = Some [],
       solver_metadata = Some [] \<rparr>"

text \<open>
  \<open>nested_store\<close> holds the start of the run recorded by
  \<^verbatim>\<open>test_get_child_cases_system\<close>: no driver recorder, two iterations of the inner
  block Gauss-Seidel solver, then the iteration of the outer run-once solver that contains
  them, then the system iteration.
\<close>

definition nested_store :: db where
  "nested_store =
     \<lparr> format_version = 3,
       driver_iterations = Some [],
       driver_derivatives = Some [],
       system_iterations =
         Some [mk_row 1 4 ''rank0:SLSQP|0|root._solve_nonlinear|0'' (''{}'', ''{}'', ''{}'')],
       solver_iterations =
         Some [mk_row 1 1
                 ''rank0:SLSQP|0|root._solve_nonlinear|0|NLRunOnce|0|mda._solve_nonlinear|0|NonlinearBlockGS|0''
                 (0, 0, ''{}'', ''{}'', ''{}''),
               mk_row 2 2
                 ''rank0:SLSQP|0|root._solve_nonlinear|0|NLRunOnce|0|mda._solve_nonlinear|0|NonlinearBlockGS|1''
                 (0, 0, ''{}'', ''{}'', ''{}''),
               mk_row 3 3 ''rank0:SLSQP|0|root._solve_nonlinear|0|NLRunOnce|0''
                 (0, 0, ''{}'', ''{}'', ''{}'')],
       problem_cases = Some [],
       driver_metadata = Some [],
       system_metadata = Some [],
       solver_metadata = Some [] \<rparr>"

text \<open>
  \<open>legacy_store\<close> is a store of format version 1 without the two later tables;
  \<open>truncated_store\<close> is a store of format version 2 that lacks them.
\<close>

definition legacy_store :: db where
  "legacy_store =
     sellar_store \<lparr> format_version := 1, driver_derivatives := None, problem_cases := None \<rparr>"

definition truncated_store :: db where
  "truncated_store =
     sellar_store \<lparr> format_version := 2, driver_derivatives := None, problem_cases := None \<rparr>"

text \<open>
  \<open>full_store\<close> is \<open>sellar_store\<close> with a row in each of the two other tables: the
  derivatives of the driver iteration and a problem case named \<^verbatim>\<open>final\<close>.
\<close>

definition full_store :: db where
  "full_store =
     sellar_store \<lparr> driver_derivatives := Some [mk_row 1 4 ''rank0:SLSQP|0'' ''{}''],
                    problem_cases := Some [mk_row 1 5 ''final'' ''{}''] \<rparr>"

text \<open>
  \<open>deep_coordinate\<close> is a coordinate of 257 segments, the first being \<^verbatim>\<open>x\<close> with index
  0 and each of the 255 that follow being \<^verbatim>\<open>a\<close> with index 1; it starts with the
  2-segment coordinate \<^verbatim>\<open>x|0\<close>.
\<close>

definition deep_coordinate :: string where
  "deep_coordinate = ''x|0'' @ concat (replicate 255 ''a|1'')"

section \<open>Facts about the resolver's building blocks\<close>

lemma gather_no_descent:
  "gather keep tag (\<lambda>x. Some (Inr [])) xs = Some (Inr (map tag (filter keep xs)))"
  by (induction xs) simp_all

lemma list_index_absent: "x \<notin> set xs \<Longrightarrow> list_index xs x = Inl ValueError"
  by (induction xs) auto

lemma list_index_present:
  "x \<in> set xs \<Longrightarrow> \<exists>i. list_index xs x = Inr i \<and> i < length xs \<and> xs ! i = x"
  by (induction xs) auto

lemma fold_lengths_set:
  "set (foldl (\<lambda>coord_lengths s.
                 (let s_len = f s in
                  if s_len \<notin> set coord_lengths then coord_lengths @ [s_len]
                  else coord_lengths)) acc xs) = set acc \<union> f ` set xs"
  by (induction xs arbitrary: acc) (auto simp: Let_def)

lemma fold_lengths_distinct:
  "distinct acc \<Longrightarrow>
   distinct (foldl (\<lambda>coord_lengths s.
                 (let s_len = f s in
                  if s_len \<notin> set coord_lengths then coord_lengths @ [s_len]
                  else coord_lengths)) acc xs)"
  by (induction xs arbitrary: acc) (auto simp: Let_def)

lemma coord_lengths_of_props:
  "sorted (coord_lengths_of solver_iter) \<and> distinct (coord_lengths_of solver_iter)
   \<and> set (coord_lengths_of solver_iter)
       = insert 2 ((\<lambda>s. int (length (coord_split (fst s)))) ` set solver_iter)"
  unfolding coord_lengths_of_def
  by (simp add: fold_lengths_set fold_lengths_distinct)

lemma two_in_coord_lengths: "2 \<in> set (coord_lengths_of solver_iter)"
  using coord_lengths_of_props [of solver_iter] by simp

lemma root_expected_child_length:
  "\<exists>L. expected_child_length (coord_lengths_of solver_iter) [] = Inr L"
  using list_index_present [OF two_in_coord_lengths, of solver_iter]
  by (auto simp: expected_child_length_def)

section \<open>The depth of the recursion\<close>

text \<open>
  The depth given to \<open>find_child_cases\<close> only bounds the recursion: a result reached
  with some depth is the result with every greater depth, and with the
  \<^verbatim>\<open>coord_lengths\<close> that \<^verbatim>\<open>get_cases\<close> computes a depth above their number is enough
  for the call to return, provided no driver coordinate is the empty string (a child's
  length is the entry after its parent's in a list without duplicates, so each level of
  the recursion moves one entry up).
\<close>

lemma gather_returns:
  assumes "\<And>x. x \<in> set xs \<Longrightarrow> keep x \<Longrightarrow> sub x \<noteq> None"
  shows "gather keep tag sub xs \<noteq> None"
  using assms
proof (induction xs)
  case Nil
  then show ?case by simp
next
  case (Cons x xs)
  then have rest: "gather keep tag sub xs \<noteq> None" by simp
  show ?case
  proof (cases "keep x")
    case False
    with rest show ?thesis by simp
  next
    case True
    then have "sub x \<noteq> None" using Cons.prems by simp
    with rest True show ?thesis by (auto split: option.splits sum.splits)
  qed
qed

lemma gather_mono:
  assumes "\<And>x r. x \<in> set xs \<Longrightarrow> keep x \<Longrightarrow> sub x = Some r \<Longrightarrow> sub' x = Some r"
    and "gather keep tag sub xs = Some res"
  shows "gather keep tag sub' xs = Some res"
  using assms
proof (induction xs arbitrary: res)
  case Nil
  then show ?case by simp
next
  case (Cons x xs)
  show ?case
  proof (cases "keep x")
    case False
    with Cons show ?thesis by simp
  next
    case True
    from Cons.prems(2) True obtain r where r: "sub x = Some r"
      by (cases "sub x") simp_all
    then have r': "sub' x = Some r" using Cons.prems(1) True by simp
    show ?thesis
    proof (cases r)
      case (Inl e)
      with Cons.prems(2) True r r' show ?thesis by auto
    next
      case (Inr ds)
      from Cons.prems(2) True r Inr obtain q where q: "gather keep tag sub xs = Some q"
        by (cases "gather keep tag sub xs") simp_all
      then have "gather keep tag sub' xs = Some q"
        using Cons.IH Cons.prems(1) by simp
      with Cons.prems(2) True r r' Inr q show ?thesis by simp
    qed
  qed
qed

lemma find_child_cases_deeper:
  "find_child_cases depth p sp driver_iter solver_iter recursive cl = Some res
     \<Longrightarrow> find_child_cases (Suc depth) p sp driver_iter solver_iter recursive cl = Some res"
proof (induction depth arbitrary: p sp res)
  case 0
  then show ?case by simp
next
  case (Suc n)
  let ?sub = "\<lambda>k c. if recursive
                     then find_child_cases k c (coord_split c) driver_iter solver_iter
                            recursive cl
                     else Some (Inr [])"
  have step: "?sub n c = Some r \<Longrightarrow> ?sub (Suc n) c = Some r" for c r
    using Suc.IH by (cases recursive) (simp_all del: find_child_cases.simps)
  have lift: "gather keep tag (\<lambda>x. ?sub n (f x)) xs = Some res
                \<Longrightarrow> gather keep tag (\<lambda>x. ?sub (Suc n) (f x)) xs = Some res"
    for keep :: "'a \<Rightarrow> bool" and tag :: "'a \<Rightarrow> string \<times> iter_type" and f xs
    by (erule gather_mono [rotated]) (rule step)
  show ?case
  proof (cases "expected_child_length cl sp")
    case (Inl e)
    with Suc.prems show ?thesis by simp
  next
    case (Inr L)
    show ?thesis
    proof (cases "p = []")
      case False
      from Suc.prems Inr False have
        "gather (\<lambda>s. is_case_child p (fst s) L) (\<lambda>s. (fst s, Solver))
           (\<lambda>s. ?sub n (fst s)) solver_iter = Some res"
        by simp
      then have
        "gather (\<lambda>s. is_case_child p (fst s) L) (\<lambda>s. (fst s, Solver))
           (\<lambda>s. ?sub (Suc n) (fst s)) solver_iter = Some res"
        by (rule lift)
      with Inr False show ?thesis
        by (subst find_child_cases.simps) (simp del: find_child_cases.simps)
    next
      case True
      show ?thesis
      proof (cases "0 < length driver_iter")
        case d: True
        from Suc.prems Inr True d have
          "gather (\<lambda>d. True) (\<lambda>d. (d, Driver)) (\<lambda>d. ?sub n d) driver_iter = Some res"
          by simp
        then have
          "gather (\<lambda>d. True) (\<lambda>d. (d, Driver)) (\<lambda>d. ?sub (Suc n) d) driver_iter = Some res"
          by (rule lift)
        with Inr True d show ?thesis
          by (subst find_child_cases.simps) (simp del: find_child_cases.simps)
      next
        case d: False
        show ?thesis
        proof (cases "0 < length solver_iter")
          case False
          with Suc.prems Inr True d show ?thesis by simp
        next
          case s: True
          from Suc.prems Inr True d s have
            "gather (\<lambda>s. is_int (int (length (coord_split (fst s))))
                        (if 1 < length cl then cl ! 1 else - 1))
               (\<lambda>s. (fst s, Solver)) (\<lambda>s. ?sub n (fst s)) solver_iter = Some res"
            by simp
          then have
            "gather (\<lambda>s. is_int (int (length (coord_split (fst s))))
                        (if 1 < length cl then cl ! 1 else - 1))
               (\<lambda>s. (fst s, Solver)) (\<lambda>s. ?sub (Suc n) (fst s)) solver_iter = Some res"
            by (rule lift)
          with Inr True d s show ?thesis
            by (subst find_child_cases.simps) (simp del: find_child_cases.simps)
        qed
      qed
    qed
  qed
qed

lemma list_index_Inr:
  "list_index xs x = Inr i \<Longrightarrow> i < length xs \<and> xs ! i = x"
  by (induction xs arbitrary: i) (auto split: if_splits sum.splits)

lemma list_index_nth:
  "distinct xs \<Longrightarrow> j < length xs \<Longrightarrow> list_index xs (xs ! j) = Inr j"
proof (induction xs arbitrary: j)
  case Nil
  then show ?case by simp
next
  case (Cons y ys)
  show ?case
  proof (cases j)
    case 0
    then show ?thesis by simp
  next
    case (Suc k)
    with Cons.prems have "ys ! k \<in> set ys" and "y \<notin> set ys" by simp_all
    then have "y \<noteq> ys ! k" by auto
    with Cons Suc show ?thesis by simp
  qed
qed

lemma split_from_nonempty: "split_from seg s \<noteq> []"
  by (induction seg s rule: split_from.induct) simp_all

lemma coord_split_length_pos: "1 \<le> int (length (coord_split c))"
  using split_from_nonempty [of "[]" c] by (cases "coord_split c") (simp_all add: coord_split_def)

lemma coord_split_empty: "coord_split [] = [[]]"
  by (simp add: coord_split_def)

lemma startswith_nonempty: "startswith c p \<Longrightarrow> p \<noteq> [] \<Longrightarrow> c \<noteq> []"
  by (cases c; cases p) simp_all

lemma expected_child_length_Inr:
  assumes "expected_child_length cl sp = Inr L"
  shows "\<exists>i. list_index cl (if int (length sp) \<noteq> 0 then int (length sp) else 2) = Inr i
             \<and> L = (if int i < int (length cl) - 1 then cl ! (i + 1) else - 1)"
  using assms by (auto simp: expected_child_length_def Let_def split: sum.splits)

lemma find_child_cases_of_case_returns:
  assumes dist: "distinct cl"
  shows "p \<noteq> [] \<Longrightarrow> 0 < depth
     \<Longrightarrow> (\<And>i. list_index cl (if int (length sp) \<noteq> 0 then int (length sp) else 2) = Inr i
                \<Longrightarrow> length cl \<le> i + depth)
     \<Longrightarrow> find_child_cases depth p sp driver_iter solver_iter recursive cl \<noteq> None"
proof (induction depth arbitrary: p sp)
  case 0
  then show ?case by simp
next
  case (Suc n)
  show ?case
  proof (cases "expected_child_length cl sp")
    case (Inl e)
    then show ?thesis by simp
  next
    case (Inr L)
    then obtain i where
        i: "list_index cl (if int (length sp) \<noteq> 0 then int (length sp) else 2) = Inr i"
      and L: "L = (if int i < int (length cl) - 1 then cl ! (i + 1) else - 1)"
      using expected_child_length_Inr by blast
    have bound: "length cl \<le> i + Suc n" using Suc.prems(3) i by simp
    have "gather (\<lambda>s. is_case_child p (fst s) L) (\<lambda>s. (fst s, Solver))
            (\<lambda>s. if recursive
                  then find_child_cases n (fst s) (coord_split (fst s)) driver_iter
                         solver_iter recursive cl
                  else Some (Inr [])) solver_iter \<noteq> None"
    proof (rule gather_returns)
      fix s assume child: "is_case_child p (fst s) L"
      let ?c = "fst s"
      from child have sw: "startswith ?c p" and len: "int (length (coord_split ?c)) = L"
        by (simp_all add: is_case_child_def is_int_def Let_def)
      have c_ne: "?c \<noteq> []" using sw Suc.prems(1) by (rule startswith_nonempty)
      have Lpos: "1 \<le> L" using coord_split_length_pos [of ?c] len by simp
      with L have lt: "i + 1 < length cl" and Leq: "L = cl ! (i + 1)"
        by (auto split: if_splits)
      have idx: "list_index cl (if int (length (coord_split ?c)) \<noteq> 0
                                then int (length (coord_split ?c)) else 2) = Inr (i + 1)"
        using list_index_nth [OF dist lt] len Leq Lpos by simp
      have npos: "0 < n" using bound lt by simp
      have "find_child_cases n ?c (coord_split ?c) driver_iter solver_iter recursive cl
              \<noteq> None"
      proof (rule Suc.IH [OF c_ne npos])
        fix j
        assume "list_index cl (if int (length (coord_split ?c)) \<noteq> 0
                               then int (length (coord_split ?c)) else 2) = Inr j"
        with idx have "j = i + 1" by simp
        then show "length cl \<le> j + n" using bound by simp
      qed
      then show "(if recursive
                  then find_child_cases n ?c (coord_split ?c) driver_iter solver_iter
                         recursive cl
                  else Some (Inr [])) \<noteq> None"
        by (cases recursive) simp_all
    qed
    with Inr Suc.prems(1) show ?thesis by simp
  qed
qed

lemma coord_lengths_of_positive: "m \<in> set (coord_lengths_of solver_iter) \<Longrightarrow> 1 \<le> m"
  using coord_lengths_of_props [of solver_iter] coord_split_length_pos by auto

lemma coord_lengths_of_second:
  assumes "1 < length (coord_lengths_of solver_iter)"
  shows "2 \<le> coord_lengths_of solver_iter ! 1"
proof -
  let ?cl = "coord_lengths_of solver_iter"
  obtain a b rest where cl: "?cl = a # b # rest"
    using assms by (cases ?cl; cases "tl ?cl") auto
  have "sorted ?cl" and "distinct ?cl" using coord_lengths_of_props [of solver_iter] by simp_all
  with cl have "a < b" by auto
  moreover have "1 \<le> a" using coord_lengths_of_positive [of a solver_iter] cl by simp
  ultimately show ?thesis using cl by simp
qed

lemma coord_lengths_of_length: "length (coord_lengths_of solver_iter) \<le> length solver_iter + 1"
proof -
  let ?cl = "coord_lengths_of solver_iter"
  let ?f = "\<lambda>s. int (length (coord_split (fst s)))"
  have "distinct ?cl" using coord_lengths_of_props [of solver_iter] by simp
  then have "length ?cl = card (set ?cl)" by (rule distinct_card [symmetric])
  also have "\<dots> = card (insert 2 (?f ` set solver_iter))"
    using coord_lengths_of_props [of solver_iter] by simp
  also have "\<dots> \<le> card (?f ` set solver_iter) + 1"
    by (simp add: card_insert_if)
  also have "\<dots> \<le> card (set solver_iter) + 1"
    by (simp add: card_image_le)
  also have "\<dots> \<le> length solver_iter + 1"
    by (simp add: card_length)
  finally show ?thesis .
qed

lemma find_child_cases_returns:
  assumes drivers: "[] \<notin> set driver_iter"
    and depth: "length (coord_lengths_of solver_iter) < depth"
  shows "find_child_cases depth p sp driver_iter solver_iter recursive
           (coord_lengths_of solver_iter) \<noteq> None"
proof -
  let ?cl = "coord_lengths_of solver_iter"
  have dist: "distinct ?cl" using coord_lengths_of_props [of solver_iter] by simp
  have below: "find_child_cases n c (coord_split c) driver_iter solver_iter recursive ?cl
                 \<noteq> None"
    if "c \<noteq> []" and "length ?cl \<le> n" and "0 < n" for n c
    using that by (intro find_child_cases_of_case_returns [OF dist]) simp_all
  show ?thesis
  proof (cases "p = []")
    case False
    from depth have "0 < depth" by simp
    with False depth show ?thesis
      by (intro find_child_cases_of_case_returns [OF dist]) simp_all
  next
    case True
    from depth obtain n where n: "depth = Suc n" and bound: "length ?cl \<le> n"
      by (cases depth) simp_all
    show ?thesis
    proof (cases "expected_child_length ?cl sp")
      case (Inl e)
      then show ?thesis by (simp add: n)
    next
      case (Inr L)
      then have "?cl \<noteq> []"
        using expected_child_length_Inr [OF Inr] list_index_Inr by fastforce
      with bound have npos: "0 < n" by (cases ?cl) simp_all
      let ?sub = "\<lambda>c. if recursive
                       then find_child_cases n c (coord_split c) driver_iter solver_iter
                              recursive ?cl
                       else Some (Inr [])"
      have sub: "?sub c \<noteq> None" if "c \<noteq> []" for c
        using below [OF that bound npos] by (cases recursive) simp_all
      have d: "gather (\<lambda>d. True) (\<lambda>d. (d, Driver)) ?sub driver_iter \<noteq> None"
      proof (rule gather_returns)
        fix x assume "x \<in> set driver_iter"
        with drivers have "x \<noteq> []" by auto
        then show "?sub x \<noteq> None" by (rule sub)
      qed
      have s: "gather (\<lambda>s. is_int (int (length (coord_split (fst s))))
                          (if 1 < length ?cl then ?cl ! 1 else - 1))
                 (\<lambda>s. (fst s, Solver)) (\<lambda>s. ?sub (fst s)) solver_iter \<noteq> None"
      proof (rule gather_returns)
        fix x
        assume "is_int (int (length (coord_split (fst x))))
                  (if 1 < length ?cl then ?cl ! 1 else - 1)"
        then have k: "int (length (coord_split (fst x)))
                     = (if 1 < length ?cl then ?cl ! 1 else - 1)"
          by (simp add: is_int_def)
        have "1 < length ?cl"
          using k coord_split_length_pos [of "fst x"] by (auto split: if_splits)
        then have "2 \<le> int (length (coord_split (fst x)))"
          using k coord_lengths_of_second by simp
        then have "fst x \<noteq> []" by (auto simp: coord_split_empty)
        then show "?sub (fst x) \<noteq> None" by (rule sub)
      qed
      from Inr True d s show ?thesis by (simp add: n)
    qed
  qed
qed

lemma get_cases_returns:
  assumes "\<And>rows. driver_iterations store = Some rows
             \<Longrightarrow> [] \<notin> iteration_coordinate ` set rows"
    and "\<And>rows. solver_iterations store = Some rows \<Longrightarrow> length rows + 1 < depth"
  shows "fst (get_cases d store depth source recurse flat rd) \<noteq> None"
proof (cases "source = ''problem'' \<or> source = ''driver''")
  case True
  then show ?thesis by (auto simp: get_cases_def split: prod.splits sum.splits)
next
  case False
  show ?thesis
  proof (cases "driver_iterations store")
    case None
    with False show ?thesis by (simp add: get_cases_def)
  next
    case (Some drows)
    note drows = this
    show ?thesis
    proof (cases "solver_iterations store")
      case None
      with False drows show ?thesis by (simp add: get_cases_def)
    next
      case (Some srows)
      let ?si = "map (\<lambda>r. (iteration_coordinate r, counter r)) (sort_key counter srows)"
      let ?di = "map iteration_coordinate (sort_key counter drows)"
      have "[] \<notin> set ?di" using assms(1) [OF drows] by simp
      moreover have "length (coord_lengths_of ?si) < depth"
        using coord_lengths_of_length [of ?si] assms(2) [OF Some] by simp
      ultimately have "find_child_cases depth source
                         (if source \<noteq> [] then coord_split source else []) ?di ?si recurse
                         (coord_lengths_of ?si) \<noteq> None"
        by (rule find_child_cases_returns)
      then obtain r where
        r: "find_child_cases depth source
              (if source \<noteq> [] then coord_split source else []) ?di ?si recurse
              (coord_lengths_of ?si) = Some r"
        by auto
      show ?thesis
        using False drows Some r
        by (cases r) (simp_all add: get_cases_def Let_def split: prod.splits split del: if_split)
    qed
  qed
qed

section \<open>The identity test of integers\<close>

text \<open>
  Segment counts up to 256 are compared by \<^verbatim>\<open>is\<close> as by \<^verbatim>\<open>==\<close>. \<open>deep_coordinate\<close>
  has 257 segments, counted here without running the split on its 768 characters.
\<close>

lemma is_int_segments:
  "L \<le> 256 \<Longrightarrow> is_int (int (length (coord_split c))) L = (int (length (coord_split c)) = L)"
  using coord_split_length_pos [of c] by (auto simp: is_int_def)

lemma dropWhile_repeated:
  "\<not> P (CHR ''a'')
     \<Longrightarrow> dropWhile P (concat (replicate n ''a|1'')) = concat (replicate n ''a|1'')"
  by (cases n) simp_all

lemma split_from_repeated:
  "length (split_from seg (concat (replicate n ''a|1''))) = Suc n"
proof (induction n arbitrary: seg)
  case 0
  then show ?case by simp
next
  case (Suc n)
  have "dropWhile ispipe (dropWhile isdigit (concat (replicate n ''a|1'')))
          = concat (replicate n ''a|1'')"
    by (simp add: dropWhile_repeated isdigit_def ispipe_def)
  then show ?case using Suc.IH by (simp add: isdigit_def ispipe_def)
qed

lemma deep_coordinate_segments: "int (length (coord_split deep_coordinate)) = 257"
proof -
  have "dropWhile ispipe (dropWhile isdigit (concat (replicate 255 ''a|1'')))
          = concat (replicate 255 ''a|1'')"
    by (simp add: dropWhile_repeated isdigit_def ispipe_def)
  then have "length (coord_split deep_coordinate)
               = Suc (length (split_from [] (concat (replicate 255 ''a|1''))))"
    by (simp add: coord_split_def deep_coordinate_def isdigit_def ispipe_def)
  then show ?thesis by (simp add: split_from_repeated)
qed

lemma deep_coordinate_length: "length (coord_split deep_coordinate) = 257"
  using deep_coordinate_segments by simp

lemma deep_coordinate_prefix: "startswith deep_coordinate ''x|0''"
  by (simp add: deep_coordinate_def)

lemma deep_coordinate_lengths: "coord_lengths_of [(deep_coordinate, n)] = [2, 257]"
  by (simp add: coord_lengths_of_def deep_coordinate_length)

section \<open>Direct children of a concrete coordinate\<close>

text \<open>
  Where the identity test of integers agrees with equality, the direct children are what
  the specification says: for a parent coordinate other than the root whose expected child
  length \<open>L\<close> is at most 256, the call without recursion returns, in the order of
  \<^verbatim>\<open>solver_iter\<close> and each tagged as a solver case, exactly the solver coordinates that
  start with the parent's string and whose split has \<open>L\<close> segments.
\<close>

lemma direct_children_within_identity_range:
  assumes "parent_iter_coord \<noteq> []"
    and "expected_child_length coord_lengths split_parent_iter_coord = Inr L"
    and "L \<le> 256"
  shows "find_child_cases (Suc depth) parent_iter_coord split_parent_iter_coord driver_iter
           solver_iter False coord_lengths
         = Some (Inr (map (\<lambda>s. (fst s, Solver))
                       (filter (\<lambda>s. startswith (fst s) parent_iter_coord
                                    \<and> int (length (coord_split (fst s))) = L) solver_iter)))"
  using assms by (simp add: gather_no_descent is_case_child_def is_int_segments)

lemma direct_children_example:
  "find_child_cases (Suc 0) ''d|0'' (coord_split ''d|0'') [''d|0'']
        [(''d|0|s|0'', 1), (''d|0|s|0|t|0'', 2), (''d|1|s|0'', 3), (''d|0|u|1'', 4)]
        False [2, 3, 4]
      = Some (Inr [(''d|0|s|0'', Solver), (''d|0|u|1'', Solver)])"
proof -
  have h1: "''d|0'' \<noteq> []" by simp
  have h2: "expected_child_length [2, 3, 4] (coord_split ''d|0'') = Inr 3"
    by (simp add: expected_child_length_def coord_split_def isdigit_def ispipe_def)
  have h3: "(3::int) \<le> 256" by simp
  show ?thesis
    using direct_children_within_identity_range [OF h1 h2 h3, of 0 "[''d|0'']"
        "[(''d|0|s|0'', 1), (''d|0|s|0|t|0'', 2), (''d|1|s|0'', 3), (''d|0|u|1'', 4)]"]
    by (simp add: coord_split_def isdigit_def ispipe_def)
qed

text \<open>
  C1. \<open>deep_coordinate\<close> starts with the parent \<^verbatim>\<open>x|0\<close> and has 257 segments, the expected
  child length computed for that parent, so the claim makes it a direct child. The source
  tests \<^verbatim>\<open>len(split_coord) is expected_child_length\<close>; at 257 the two integers are equal
  and are not the same object, the test fails, and the parent has no children.
\<close>

theorem direct_child_of_257_segments_dropped:
  "startswith deep_coordinate ''x|0''
   \<and> int (length (coord_split deep_coordinate)) = 257
   \<and> expected_child_length (coord_lengths_of [(deep_coordinate, 1)]) (coord_split ''x|0'')
       = Inr 257
   \<and> find_child_cases (Suc 0) ''x|0'' (coord_split ''x|0'') [] [(deep_coordinate, 1)] False
        (coord_lengths_of [(deep_coordinate, 1)])
       = Some (Inr [])"
proof -
  have sp: "coord_split ''x|0'' = [''x'', '''']"
    by (simp add: coord_split_def isdigit_def ispipe_def)
  have e: "expected_child_length [2, 257] [''x'', ''''] = Inr 257"
    by (simp add: expected_child_length_def)
  have "\<not> is_case_child ''x|0'' deep_coordinate 257"
    by (simp add: is_case_child_def is_int_def Let_def deep_coordinate_length)
  then have "find_child_cases (Suc 0) ''x|0'' [''x'', ''''] [] [(deep_coordinate, 1)] False
               [2, 257] = Some (Inr [])"
    by (simp add: e)
  then show ?thesis
    by (simp add: e sp deep_coordinate_lengths deep_coordinate_prefix
          deep_coordinate_length del: find_child_cases.simps)
qed

section \<open>Children of the root\<close>

lemma second_length_is_smallest_non_root:
  assumes ge2: "\<forall>s\<in>set solver_iter. 2 \<le> int (length (coord_split (fst s)))"
    and s: "s \<in> set solver_iter"
  shows "(int (length (coord_split (fst s)))
            = (if 1 < length (coord_lengths_of solver_iter)
               then coord_lengths_of solver_iter ! 1 else - 1))
         = smallest_non_root_length solver_iter (int (length (coord_split (fst s))))"
proof -
  let ?f = "\<lambda>s. int (length (coord_split (fst s)))"
  let ?cl = "coord_lengths_of solver_iter"
  have srt: "sorted ?cl" and dst: "distinct ?cl"
    and st: "set ?cl = insert 2 (?f ` set solver_iter)"
    using coord_lengths_of_props [of solver_iter] by simp_all
  have snr: "smallest_non_root_length solver_iter n
               \<longleftrightarrow> n \<noteq> 2 \<and> n \<in> ?f ` set solver_iter
                   \<and> (\<forall>m \<in> ?f ` set solver_iter. m \<noteq> 2 \<longrightarrow> n \<le> m)" for n
    by (auto simp: smallest_non_root_length_def list_ex_iff list_all_iff)
  have all_ge2: "\<forall>m \<in> set ?cl. 2 \<le> m" using st ge2 by auto
  obtain a rest where cl: "?cl = a # rest"
    using st by (cases ?cl) auto
  have a_le: "\<forall>m \<in> set rest. a < m"
    using srt dst cl by (auto simp: less_le)
  have a2: "a = 2"
  proof -
    have "2 \<in> set (a # rest)" using st cl by simp
    moreover have "2 \<le> a" using all_ge2 cl by simp
    ultimately show ?thesis using a_le by auto
  qed
  show ?thesis
  proof (cases rest)
    case Nil
    then have "?f ` set solver_iter \<subseteq> {2}" using st cl a2 by auto
    then have "?f s = 2" using s by auto
    then show ?thesis using Nil cl by (simp add: snr)
  next
    case (Cons b rest')
    have b_min: "\<forall>m \<in> set rest. b \<le> m"
      using srt cl Cons by auto
    have b_ne2: "b \<noteq> 2" using a_le a2 Cons by auto
    have b_in: "b \<in> ?f ` set solver_iter" using st cl Cons b_ne2 by auto
    have rest_eq: "\<forall>m \<in> ?f ` set solver_iter. m \<noteq> 2 \<longrightarrow> m \<in> set rest"
    proof (intro ballI impI)
      fix m assume "m \<in> ?f ` set solver_iter" and "m \<noteq> 2"
      then have "m \<in> set (a # rest)" and "m \<noteq> a" using st cl a2 by auto
      then show "m \<in> set rest" by simp
    qed
    have idx: "(if 1 < length ?cl then ?cl ! 1 else - 1) = b" using cl Cons by simp
    have "smallest_non_root_length solver_iter (?f s) \<longleftrightarrow> ?f s = b"
    proof
      assume h: "smallest_non_root_length solver_iter (?f s)"
      then have "?f s \<le> b" using b_in b_ne2 by (auto simp: snr)
      moreover have "b \<le> ?f s" using h rest_eq b_min by (auto simp: snr)
      ultimately show "?f s = b" by simp
    next
      assume "?f s = b"
      then show "smallest_non_root_length solver_iter (?f s)"
        using b_ne2 b_in rest_eq b_min by (auto simp: snr)
    qed
    then show ?thesis using idx by auto
  qed
qed

lemma root_solver_children:
  assumes "expected_child_length cl [] = Inr L"
  shows "find_child_cases (Suc depth) [] [] [] solver_iter False cl
         = Some (Inr (map (\<lambda>s. (fst s, Solver))
               (filter (\<lambda>s. is_int (int (length (coord_split (fst s))))
                              (if 1 < length cl then cl ! 1 else - 1)) solver_iter)))"
  using assms by (cases solver_iter) (simp_all add: gather_no_descent)

text \<open>
  Where the identity test of integers agrees with equality, the root's children are what
  the specification says: for the root (the empty coordinate, with the empty split that
  \<^verbatim>\<open>get_cases\<close> passes for it) and the \<^verbatim>\<open>coord_lengths\<close> that \<^verbatim>\<open>get_cases\<close> computes,
  when there is a driver coordinate the children are all driver coordinates in the order
  given, each tagged as a driver case, and no solver coordinate; when there is none and
  every solver coordinate has between 2 and 256 segments, the children are the solver
  coordinates whose segment count is the smallest non-root length present; when both lists
  are empty the result is the empty list. No error is raised in any of the three cases.
\<close>

lemma children_of_root_within_identity_range:
  "(driver_iter \<noteq> [] \<longrightarrow>
      find_child_cases (Suc depth) [] [] driver_iter solver_iter False
          (coord_lengths_of solver_iter)
        = Some (Inr (map (\<lambda>d. (d, Driver)) driver_iter)))
   \<and> ((\<forall>s\<in>set solver_iter. 2 \<le> int (length (coord_split (fst s)))
                             \<and> int (length (coord_split (fst s))) \<le> 256) \<longrightarrow>
      find_child_cases (Suc depth) [] [] [] solver_iter False (coord_lengths_of solver_iter)
        = Some (Inr (map (\<lambda>s. (fst s, Solver))
                      (filter (\<lambda>s. smallest_non_root_length solver_iter
                                      (int (length (coord_split (fst s))))) solver_iter))))
   \<and> find_child_cases (Suc depth) [] [] [] [] False (coord_lengths_of []) = Some (Inr [])"
proof (intro conjI impI)
  obtain L where L: "expected_child_length (coord_lengths_of solver_iter) [] = Inr L"
    using root_expected_child_length by blast
  {
    assume "driver_iter \<noteq> []"
    then show "find_child_cases (Suc depth) [] [] driver_iter solver_iter False
          (coord_lengths_of solver_iter)
        = Some (Inr (map (\<lambda>d. (d, Driver)) driver_iter))"
      using L by (simp add: gather_no_descent)
  }
  {
    assume range: "\<forall>s\<in>set solver_iter. 2 \<le> int (length (coord_split (fst s)))
                             \<and> int (length (coord_split (fst s))) \<le> 256"
    then have ge2: "\<forall>s\<in>set solver_iter. 2 \<le> int (length (coord_split (fst s)))"
      by simp
    have "filter (\<lambda>s. is_int (int (length (coord_split (fst s))))
                        (if 1 < length (coord_lengths_of solver_iter)
                         then coord_lengths_of solver_iter ! 1 else - 1)) solver_iter
          = filter (\<lambda>s. smallest_non_root_length solver_iter
                          (int (length (coord_split (fst s))))) solver_iter"
    proof (rule filter_cong [OF refl])
      fix s assume s: "s \<in> set solver_iter"
      then have "is_int (int (length (coord_split (fst s))))
                   (if 1 < length (coord_lengths_of solver_iter)
                    then coord_lengths_of solver_iter ! 1 else - 1)
                 = (int (length (coord_split (fst s)))
                     = (if 1 < length (coord_lengths_of solver_iter)
                        then coord_lengths_of solver_iter ! 1 else - 1))"
        using range by (auto simp: is_int_def)
      then show "is_int (int (length (coord_split (fst s))))
                   (if 1 < length (coord_lengths_of solver_iter)
                    then coord_lengths_of solver_iter ! 1 else - 1)
                 = smallest_non_root_length solver_iter (int (length (coord_split (fst s))))"
        using second_length_is_smallest_non_root [OF ge2 s] by simp
    qed
    then show "find_child_cases (Suc depth) [] [] [] solver_iter False
          (coord_lengths_of solver_iter)
        = Some (Inr (map (\<lambda>s. (fst s, Solver))
                      (filter (\<lambda>s. smallest_non_root_length solver_iter
                                      (int (length (coord_split (fst s))))) solver_iter)))"
      using root_solver_children [OF L, of depth solver_iter] by simp
  }
  obtain L0 where "expected_child_length (coord_lengths_of []) [] = Inr L0"
    using root_expected_child_length by blast
  then show "find_child_cases (Suc depth) [] [] [] [] False (coord_lengths_of []) = Some (Inr [])"
    by simp
qed

lemma children_of_root_example:
  "find_child_cases (Suc 0) [] [] [''rank0:SLSQP|0'']
        [(''r|0|NL|0'', 2), (''r|0|NL|0|m|0|GS|0'', 1), (''r|1|NL|0'', 3)] False
        (coord_lengths_of [(''r|0|NL|0'', 2), (''r|0|NL|0|m|0|GS|0'', 1), (''r|1|NL|0'', 3)])
      = Some (Inr [(''rank0:SLSQP|0'', Driver)])
   \<and> find_child_cases (Suc 0) [] [] []
        [(''r|0|NL|0'', 2), (''r|0|NL|0|m|0|GS|0'', 1), (''r|1|NL|0'', 3)] False
        (coord_lengths_of [(''r|0|NL|0'', 2), (''r|0|NL|0|m|0|GS|0'', 1), (''r|1|NL|0'', 3)])
      = Some (Inr [(''r|0|NL|0'', Solver), (''r|1|NL|0'', Solver)])"
proof -
  let ?si = "[(''r|0|NL|0'', 2::int), (''r|0|NL|0|m|0|GS|0'', 1), (''r|1|NL|0'', 3)]"
  have h1: "[''rank0:SLSQP|0''] \<noteq> []" by simp
  have "list_all (\<lambda>s. 2 \<le> int (length (coord_split (fst s)))
                       \<and> int (length (coord_split (fst s))) \<le> 256) ?si"
    by (simp add: coord_split_def isdigit_def ispipe_def)
  then have h2: "\<forall>s\<in>set ?si. 2 \<le> int (length (coord_split (fst s)))
                               \<and> int (length (coord_split (fst s))) \<le> 256"
    unfolding list_all_iff .
  have f: "filter (\<lambda>s. smallest_non_root_length ?si (int (length (coord_split (fst s))))) ?si
           = [(''r|0|NL|0'', 2), (''r|1|NL|0'', 3)]"
    by (simp add: smallest_non_root_length_def coord_split_def isdigit_def ispipe_def)
  from children_of_root_within_identity_range [of "[''rank0:SLSQP|0'']" 0 ?si] h1 h2 f
  show ?thesis by simp
qed

text \<open>
  C2. With no driver coordinate and the one solver coordinate \<open>deep_coordinate\<close>, the
  smallest non-root length present is 257 and the coordinate has it, so the claim makes it
  the root's child. The source finds the first layer by
  \<^verbatim>\<open>len(split_coord) is min_iter_len\<close>; at 257 the two integers are equal and are not the
  same object, the test fails, and the root has no children.
\<close>

theorem root_child_of_257_segments_dropped:
  "int (length (coord_split deep_coordinate)) = 257
   \<and> smallest_non_root_length [(deep_coordinate, 1)] 257
   \<and> find_child_cases (Suc 0) [] [] [] [(deep_coordinate, 1)] False
        (coord_lengths_of [(deep_coordinate, 1)])
       = Some (Inr [])"
proof -
  have e: "expected_child_length [2, 257] [] = Inr 257"
    by (simp add: expected_child_length_def)
  have "find_child_cases (Suc 0) [] [] [] [(deep_coordinate, 1)] False [2, 257]
          = Some (Inr [])"
    by (simp add: e is_int_def deep_coordinate_length)
  then show ?thesis
    by (simp add: deep_coordinate_lengths deep_coordinate_length
          smallest_non_root_length_def del: find_child_cases.simps)
qed

section \<open>The possible coordinate lengths\<close>

text \<open>
  C3, amended. The \<^verbatim>\<open>coord_lengths\<close> that \<^verbatim>\<open>get_cases\<close> passes to the resolver is sorted,
  has no duplicates, and its entries are the base length 2 and the segment counts of the
  solver coordinates.
\<close>

theorem coord_lengths_from_solver_only:
  "sorted (coord_lengths_of solver_iter) \<and> distinct (coord_lengths_of solver_iter)
   \<and> set (coord_lengths_of solver_iter)
       = insert 2 ((\<lambda>s. int (length (coord_split (fst s)))) ` set solver_iter)"
  by (rule coord_lengths_of_props)

text \<open>
  C3 as stated fails on the coordinates of \<open>sellar_store\<close>: the system coordinate has three
  segments, and 3 is not among the lengths the source computes.
\<close>

theorem coord_lengths_all_categories_counterexample:
  "coord_lengths_of [(''rank0:SLSQP|0|root._solve_nonlinear|0|NLRunOnce|0'', 1)] = [2, 4]
   \<and> spec_coord_lengths [''rank0:SLSQP|0''] [] [''rank0:SLSQP|0|root._solve_nonlinear|0'']
        [''rank0:SLSQP|0|root._solve_nonlinear|0|NLRunOnce|0''] [] = [2, 3, 4]
   \<and> coord_lengths_of [(''rank0:SLSQP|0|root._solve_nonlinear|0|NLRunOnce|0'', 1)]
       \<noteq> spec_coord_lengths [''rank0:SLSQP|0''] []
           [''rank0:SLSQP|0|root._solve_nonlinear|0'']
           [''rank0:SLSQP|0|root._solve_nonlinear|0|NLRunOnce|0''] []"
  by (simp add: coord_lengths_of_def spec_coord_lengths_def coord_split_def isdigit_def
        ispipe_def)

section \<open>Parents whose length is unknown\<close>

lemma index_error:
  assumes "(if int (length split_parent) \<noteq> 0 then int (length split_parent) else 2)
             \<notin> set coord_lengths"
  shows "find_child_cases (Suc depth) parent split_parent driver_iter solver_iter recursive
           coord_lengths = Some (Inl ValueError)"
  using list_index_absent [OF assms] by (simp add: expected_child_length_def)

lemma no_index_error:
  assumes "(if int (length split_parent) \<noteq> 0 then int (length split_parent) else 2)
             \<in> set coord_lengths"
  shows "\<exists>children. find_child_cases (Suc depth) parent split_parent driver_iter solver_iter
           False coord_lengths = Some (Inr children)"
proof -
  from list_index_present [OF assms] obtain L where
    "expected_child_length coord_lengths split_parent = Inr L"
    by (auto simp: expected_child_length_def)
  then show ?thesis by (simp add: gather_no_descent)
qed

lemma sellar_system_coordinate:
  "fst (get_cases example_deps sellar_store (Suc depth)
          ''rank0:SLSQP|0|root._solve_nonlinear|0'' True True new_reader)
   = Some (Inl ValueError)"
  by (simp add: get_cases_def sellar_store_def mk_row_def coord_lengths_of_def coord_split_def
        isdigit_def ispipe_def expected_child_length_def Let_def)

text \<open>
  C10. \<^verbatim>\<open>_find_child_cases\<close> looks the parent's segment count (2 for the root) up in
  \<^verbatim>\<open>coord_lengths\<close>: when it is not there the call ends with the \<open>ValueError\<close> of
  \<^verbatim>\<open>list.index\<close>, whatever the other arguments; when it is there the call without
  recursion returns a list. A store and a source with that error: in \<open>sellar_store\<close> the
  system coordinate has three segments, the lengths are 2 and 4, and \<^verbatim>\<open>get_cases\<close> on it
  raises the \<open>ValueError\<close>.
\<close>

theorem find_child_cases_needs_known_length:
  "((if int (length split_parent) \<noteq> 0 then int (length split_parent) else 2)
       \<notin> set coord_lengths
     \<longrightarrow> find_child_cases (Suc depth) parent split_parent driver_iter solver_iter recursive
           coord_lengths = Some (Inl ValueError))
   \<and> ((if int (length split_parent) \<noteq> 0 then int (length split_parent) else 2)
       \<in> set coord_lengths
     \<longrightarrow> (\<exists>children. find_child_cases (Suc depth) parent split_parent driver_iter solver_iter
           False coord_lengths = Some (Inr children)))
   \<and> fst (get_cases example_deps sellar_store (Suc depth)
          ''rank0:SLSQP|0|root._solve_nonlinear|0'' True True new_reader)
      = Some (Inl ValueError)"
  using index_error no_index_error sellar_system_coordinate by blast

theorem find_child_cases_needs_known_length_witness:
  "(if int (length (coord_split ''d|0|s|0'')) \<noteq> 0
    then int (length (coord_split ''d|0|s|0'')) else 2) \<notin> set [2, 4]
   \<and> find_child_cases (Suc 0) ''d|0|s|0'' (coord_split ''d|0|s|0'') [''d|0'']
        [(''d|0|s|0|t|0'', 1)] True [2, 4] = Some (Inl ValueError)
   \<and> (if int (length (coord_split ''d|0'')) \<noteq> 0
      then int (length (coord_split ''d|0'')) else 2) \<in> set [2, 4]
   \<and> find_child_cases (Suc 0) ''d|0'' (coord_split ''d|0'') [''d|0'']
        [(''d|0|s|0|t|0'', 1)] False [2, 4] = Some (Inr [(''d|0|s|0|t|0'', Solver)])"
proof -
  have h1: "(if int (length (coord_split ''d|0|s|0'')) \<noteq> 0
             then int (length (coord_split ''d|0|s|0'')) else 2) \<notin> set [2, 4]"
    by (simp add: coord_split_def isdigit_def ispipe_def)
  have h2: "(if int (length (coord_split ''d|0'')) \<noteq> 0
             then int (length (coord_split ''d|0'')) else 2) \<in> set [2, 4]"
    by (simp add: coord_split_def isdigit_def ispipe_def)
  have v: "find_child_cases (Suc 0) ''d|0'' (coord_split ''d|0'') [''d|0'']
             [(''d|0|s|0|t|0'', 1)] False [2, 4] = Some (Inr [(''d|0|s|0|t|0'', Solver)])"
    by (simp add: coord_split_def isdigit_def ispipe_def expected_child_length_def
          is_case_child_def is_int_def)
  from find_child_cases_needs_known_length
         [of "coord_split ''d|0|s|0''" "[2, 4]" 0 "''d|0|s|0''" "[''d|0'']"
             "[(''d|0|s|0|t|0'', 1)]" True]
       find_child_cases_needs_known_length
         [of "coord_split ''d|0''" "[2, 4]" 0 "''d|0''" "[''d|0'']"
             "[(''d|0|s|0|t|0'', 1)]" False]
       h1 h2 v
  show ?thesis by blast
qed

section \<open>The case cache\<close>

lemma find_Some_coord:
  "find (\<lambda>r. iteration_coordinate r = c) rows = Some r \<Longrightarrow> iteration_coordinate r = c"
  by (auto simp: find_Some_iff)

lemma driver_extract_coord:
  "driver_extract_case_from_row d v (Some r) = Inr c
     \<Longrightarrow> case_iteration_coordinate c = iteration_coordinate r \<and> case_counter c = counter r"
  by (auto simp: driver_extract_case_from_row_def mk_case_def split: prod.splits sum.splits)

lemma driver_extract_None [simp]: "driver_extract_case_from_row d v None = Inl TypeError"
  by (simp add: driver_extract_case_from_row_def)

lemma solver_extract_None [simp]: "solver_extract_case_from_row d v None = Inl TypeError"
  by (simp add: solver_extract_case_from_row_def)

lemma problem_extract_None [simp]: "problem_extract_case_from_row d v None = Inl TypeError"
  by (simp add: problem_extract_case_from_row_def)

lemma driver_get_case_cached:
  "cached st (get_iteration_coordinate d c) = Some a
     \<Longrightarrow> driver_get_case d store c False st = (Inr a, st)"
  by (simp add: driver_get_case_def)

lemma driver_get_case_unscaled_caches:
  assumes "driver_get_case d store c False st = (Inr a, st1)"
  shows "cached st1 (get_iteration_coordinate d c) = Some a"
proof (cases "cached st (get_iteration_coordinate d c)")
  case (Some b)
  with assms show ?thesis by (simp add: driver_get_case_def)
next
  case None
  with assms obtain rows x where
      x: "driver_extract_case_from_row d (format_version store)
            (find (\<lambda>r. iteration_coordinate r = get_iteration_coordinate d c) rows) = Inr x"
    and a: "a = length (objs st)"
    and st1: "st1 = st\<lparr>objs := objs st @ [x], decodes := Suc (decodes st),
                 cached := (cached st)(case_iteration_coordinate x \<mapsto> length (objs st))\<rparr>"
    by (auto simp: driver_get_case_def fetchone_def Let_def split: option.splits sum.splits)
  from x obtain r where
      r: "find (\<lambda>r. iteration_coordinate r = get_iteration_coordinate d c) rows = Some r"
    by (cases "find (\<lambda>r. iteration_coordinate r = get_iteration_coordinate d c) rows") auto
  from x r have "case_iteration_coordinate x = iteration_coordinate r"
    by (simp add: driver_extract_coord)
  with find_Some_coord [OF r] a st1 show ?thesis by simp
qed

lemma solver_get_case_caches:
  assumes "solver_get_case d store c st = (Inr a, st1)"
  shows "cached st1 (get_iteration_coordinate d c) = Some a"
  using assms
  by (auto simp: solver_get_case_def Let_def split: option.splits sum.splits)

lemma solver_get_case_cached:
  "cached st (get_iteration_coordinate d c) = Some a
     \<Longrightarrow> solver_get_case d store c st = (Inr a, st)"
  by (simp add: solver_get_case_def)

lemma find_None_coord:
  "c \<notin> iteration_coordinate ` set rows
     \<Longrightarrow> find (\<lambda>r. iteration_coordinate r = c) rows = None"
  by (auto simp: find_None_iff)

lemma not_cached:
  "dom (cached st) \<subseteq> iteration_coordinate ` set rows
     \<Longrightarrow> c \<notin> iteration_coordinate ` set rows \<Longrightarrow> cached st c = None"
  by auto

lemma driver_get_case_missing:
  assumes "driver_iterations store = Some rows"
    and "dom (cached st) \<subseteq> iteration_coordinate ` set rows"
    and "get_iteration_coordinate d c \<notin> iteration_coordinate ` set rows"
  shows "driver_get_case d store c scaled st = (Inl TypeError, st)"
  using assms not_cached [OF assms(2,3)] find_None_coord [OF assms(3)]
  by (simp add: driver_get_case_def fetchone_def)

lemma solver_get_case_missing:
  assumes "solver_iterations store = Some rows"
    and "dom (cached st) \<subseteq> iteration_coordinate ` set rows"
    and "get_iteration_coordinate d c \<notin> iteration_coordinate ` set rows"
  shows "solver_get_case d store c st = (Inl TypeError, st)"
  using assms not_cached [OF assms(2,3)] find_None_coord [OF assms(3)]
  by (simp add: solver_get_case_def fetchone_def)

lemma problem_get_case_missing:
  assumes "problem_cases store = Some rows"
    and "dom (cached st) \<subseteq> iteration_coordinate ` set rows"
    and "c \<notin> iteration_coordinate ` set rows"
  shows "problem_get_case d store c st = (Inl TypeError, st)"
  using assms not_cached [OF assms(2,3)] find_None_coord [OF assms(3)]
  by (simp add: problem_get_case_def fetchone_def)

lemma find_coord_in_rows:
  "find (\<lambda>r. iteration_coordinate r = c) rows = Some r \<Longrightarrow> c \<in> iteration_coordinate ` set rows"
  by (auto simp: find_Some_iff)

lemma solver_extract_Some:
  "solver_extract_case_from_row d v row = Inr c \<Longrightarrow> \<exists>r. row = Some r"
  by (cases row) simp_all

lemma driver_extract_Some:
  "driver_extract_case_from_row d v row = Inr c \<Longrightarrow> \<exists>r. row = Some r"
  by (cases row) simp_all

lemma problem_extract_Some:
  "problem_extract_case_from_row d v row = Inr c \<Longrightarrow> \<exists>r. row = Some r"
  by (cases row) simp_all

lemma solver_get_case_keeps_cache_within:
  assumes "solver_iterations store = Some rows"
    and "dom (cached st) \<subseteq> iteration_coordinate ` set rows"
  shows "dom (cached (snd (solver_get_case d store c st))) \<subseteq> iteration_coordinate ` set rows"
  using assms
  by (auto simp: solver_get_case_def fetchone_def Let_def
           split: option.splits sum.splits if_splits
           dest!: solver_extract_Some find_coord_in_rows)

lemma problem_get_case_keeps_cache_within:
  assumes "problem_cases store = Some rows"
    and "dom (cached st) \<subseteq> iteration_coordinate ` set rows"
  shows "dom (cached (snd (problem_get_case d store c st))) \<subseteq> iteration_coordinate ` set rows"
  using assms
  by (auto simp: problem_get_case_def fetchone_def Let_def
           split: option.splits sum.splits if_splits
           dest!: problem_extract_Some find_coord_in_rows)

lemma driver_get_case_keeps_cache_within:
  assumes "driver_iterations store = Some rows"
    and "dom (cached st) \<subseteq> iteration_coordinate ` set rows"
  shows "dom (cached (snd (driver_get_case d store c scaled st))) \<subseteq> iteration_coordinate ` set rows"
proof (cases "cached st (get_iteration_coordinate d c)")
  case (Some a)
  then show ?thesis using assms by (simp add: driver_get_case_def)
next
  case None
  show ?thesis
  proof (cases "driver_extract_case_from_row d (format_version store)
                  (find (\<lambda>r. iteration_coordinate r = get_iteration_coordinate d c) rows)")
    case (Inl e)
    then show ?thesis using assms None by (simp add: driver_get_case_def fetchone_def)
  next
    case (Inr x)
    then obtain r where
      r: "find (\<lambda>r. iteration_coordinate r = get_iteration_coordinate d c) rows = Some r"
      using driver_extract_Some by blast
    then have "r \<in> set rows" by (auto simp: find_Some_iff)
    moreover have "case_iteration_coordinate x = iteration_coordinate r"
      using Inr r by (simp add: driver_extract_coord)
    ultimately show ?thesis
      using assms None Inr by (auto simp: driver_get_case_def fetchone_def)
  qed
qed

lemma driver_get_case_scaled_eq:
  "driver_get_case d store c True st =
     (case driver_get_case d store c False st of
        (Inl e, st0) \<Rightarrow> (Inl e, st)
      | (Inr a, st0) \<Rightarrow>
          (Inr (length (objs st0)), st0\<lparr> objs := objs st0 @ [scale d (objs st0 ! a)] \<rparr>))"
  by (simp add: driver_get_case_def Let_def split: option.splits sum.splits)

lemma driver_get_case_ref_valid:
  assumes "\<forall>k a. cached st k = Some a \<longrightarrow> a < length (objs st)"
    and "driver_get_case d store c False st = (Inr a, st0)"
  shows "a < length (objs st0)"
  using assms
  by (auto simp: driver_get_case_def Let_def split: option.splits sum.splits)

lemma derivative_extract_None [simp]: "derivative_extract_case_from_row d None = Inl TypeError"
  by (simp add: derivative_extract_case_from_row_def)

lemma system_extract_None [simp]: "system_extract_case_from_row d v None = Inl TypeError"
  by (simp add: system_extract_case_from_row_def)

lemma derivative_extract_coord:
  "derivative_extract_case_from_row d (Some r) = Inr c
     \<Longrightarrow> case_iteration_coordinate c = iteration_coordinate r"
  by (auto simp: derivative_extract_case_from_row_def mk_case_def split: sum.splits)

lemma system_extract_coord:
  "system_extract_case_from_row d v (Some r) = Inr c
     \<Longrightarrow> case_iteration_coordinate c = iteration_coordinate r"
  by (auto simp: system_extract_case_from_row_def mk_case_def split: prod.splits sum.splits)

lemma derivative_get_case_cached:
  "cached st (get_iteration_coordinate d c) = Some a
     \<Longrightarrow> derivative_get_case d store c st = (Inr a, st)"
  by (simp add: derivative_get_case_def)

lemma system_get_case_cached:
  "cached st (get_iteration_coordinate d c) = Some a
     \<Longrightarrow> system_get_case d store c st = (Inr a, st)"
  by (simp add: system_get_case_def)

lemma problem_get_case_cached:
  "cached st name = Some a \<Longrightarrow> problem_get_case d store name st = (Inr a, st)"
  by (simp add: problem_get_case_def)

lemma problem_get_case_caches:
  assumes "problem_get_case d store name st = (Inr a, st1)"
  shows "cached st1 name = Some a"
  using assms
  by (auto simp: problem_get_case_def split: option.splits sum.splits)

lemma derivative_get_case_caches:
  assumes "derivative_get_case d store c st = (Inr a, st1)"
  shows "cached st1 (get_iteration_coordinate d c) = Some a"
proof (cases "cached st (get_iteration_coordinate d c)")
  case (Some b)
  with assms show ?thesis by (simp add: derivative_get_case_def)
next
  case None
  with assms obtain rows x where
      x: "derivative_extract_case_from_row d
            (find (\<lambda>r. iteration_coordinate r = get_iteration_coordinate d c) rows) = Inr x"
    and a: "a = length (objs st)"
    and st1: "st1 = st\<lparr>objs := objs st @ [x], decodes := Suc (decodes st),
                 cached := (cached st)(case_iteration_coordinate x \<mapsto> length (objs st))\<rparr>"
    by (auto simp: derivative_get_case_def fetchone_def Let_def split: option.splits sum.splits)
  from x obtain r where
      r: "find (\<lambda>r. iteration_coordinate r = get_iteration_coordinate d c) rows = Some r"
    by (cases "find (\<lambda>r. iteration_coordinate r = get_iteration_coordinate d c) rows") auto
  from x r have "case_iteration_coordinate x = iteration_coordinate r"
    by (simp add: derivative_extract_coord)
  with find_Some_coord [OF r] a st1 show ?thesis by simp
qed

lemma system_get_case_caches:
  assumes "system_get_case d store c st = (Inr a, st1)"
  shows "cached st1 (get_iteration_coordinate d c) = Some a"
proof (cases "cached st (get_iteration_coordinate d c)")
  case (Some b)
  with assms show ?thesis by (simp add: system_get_case_def)
next
  case None
  with assms obtain rows x where
      x: "system_extract_case_from_row d (format_version store)
            (find (\<lambda>r. iteration_coordinate r = get_iteration_coordinate d c) rows) = Inr x"
    and a: "a = length (objs st)"
    and st1: "st1 = st\<lparr>objs := objs st @ [x], decodes := Suc (decodes st),
                 cached := (cached st)(case_iteration_coordinate x \<mapsto> length (objs st))\<rparr>"
    by (auto simp: system_get_case_def fetchone_def Let_def split: option.splits sum.splits)
  from x obtain r where
      r: "find (\<lambda>r. iteration_coordinate r = get_iteration_coordinate d c) rows = Some r"
    by (cases "find (\<lambda>r. iteration_coordinate r = get_iteration_coordinate d c) rows") auto
  from x r have "case_iteration_coordinate x = iteration_coordinate r"
    by (simp add: system_extract_coord)
  with find_Some_coord [OF r] a st1 show ?thesis by simp
qed

text \<open>A call that returns a case has decoded one row when the case was not cached, and none when it was.\<close>

lemma driver_get_case_decodes:
  assumes "driver_get_case d store c scaled st = (Inr a, st1)"
  shows "decodes st1 = (if cached st (get_iteration_coordinate d c) = None
                        then Suc (decodes st) else decodes st)"
  using assms
  by (auto simp: driver_get_case_def Let_def split: option.splits sum.splits if_splits)

lemma derivative_get_case_decodes:
  assumes "derivative_get_case d store c st = (Inr a, st1)"
  shows "decodes st1 = (if cached st (get_iteration_coordinate d c) = None
                        then Suc (decodes st) else decodes st)"
  using assms
  by (auto simp: derivative_get_case_def Let_def split: option.splits sum.splits)

lemma system_get_case_decodes:
  assumes "system_get_case d store c st = (Inr a, st1)"
  shows "decodes st1 = (if cached st (get_iteration_coordinate d c) = None
                        then Suc (decodes st) else decodes st)"
  using assms
  by (auto simp: system_get_case_def Let_def split: option.splits sum.splits)

lemma solver_get_case_decodes:
  assumes "solver_get_case d store c st = (Inr a, st1)"
  shows "decodes st1 = (if cached st (get_iteration_coordinate d c) = None
                        then Suc (decodes st) else decodes st)"
  using assms
  by (auto simp: solver_get_case_def Let_def split: option.splits sum.splits)

lemma problem_get_case_decodes:
  assumes "problem_get_case d store name st = (Inr a, st1)"
  shows "decodes st1 = (if cached st name = None then Suc (decodes st) else decodes st)"
  using assms
  by (auto simp: problem_get_case_def split: option.splits sum.splits)

text \<open>A second scaled call copies the cached case again.\<close>

lemma driver_get_case_scaled_again:
  assumes "driver_get_case d store c True st = (Inr b, st1)"
  shows "\<exists>st2. driver_get_case d store c True st1 = (Inr (Suc b), st2)
               \<and> decodes st2 = decodes st1 \<and> cached st2 = cached st1"
proof -
  obtain r st0 where u: "driver_get_case d store c False st = (r, st0)"
    by (cases "driver_get_case d store c False st")
  with assms obtain a where r: "r = Inr a"
    by (cases r) (simp_all add: driver_get_case_scaled_eq)
  from assms u r have b: "b = length (objs st0)"
    and st1: "st1 = st0\<lparr> objs := objs st0 @ [scale d (objs st0 ! a)] \<rparr>"
    by (simp_all add: driver_get_case_scaled_eq)
  from u r have "cached st0 (get_iteration_coordinate d c) = Some a"
    by (simp add: driver_get_case_unscaled_caches)
  then have "cached st1 (get_iteration_coordinate d c) = Some a" by (simp add: st1)
  then have "driver_get_case d store c False st1 = (Inr a, st1)"
    by (rule driver_get_case_cached)
  then show ?thesis by (simp add: driver_get_case_scaled_eq b st1)
qed

section \<open>Looking a case up twice\<close>

text \<open>
  C8, amended. When \<^verbatim>\<open>get_case\<close> of a category store (driver without scaling,
  driver-derivative, system, solver or problem) has returned a case for a coordinate, the
  cache maps the coordinate to the returned reference, the call has decoded one row if
  the coordinate was not cached and none if it was, and a second call on the same
  coordinate returns the same reference and leaves the store as it is: it decodes nothing
  and constructs no object. With \<^verbatim>\<open>scaled=True\<close> a second call on the driver store
  decodes nothing either and leaves the cache as it is, and returns a reference to a new
  object, the one after the reference the first call returned.
\<close>

theorem get_case_again_returns_cached_case:
  "(driver_get_case d store c False dst = (Inr a, dst1) \<longrightarrow>
      cached dst1 (get_iteration_coordinate d c) = Some a
      \<and> decodes dst1 = (if cached dst (get_iteration_coordinate d c) = None
                         then Suc (decodes dst) else decodes dst)
      \<and> driver_get_case d store c False dst1 = (Inr a, dst1))
   \<and> (derivative_get_case d store c vst = (Inr av, vst1) \<longrightarrow>
      cached vst1 (get_iteration_coordinate d c) = Some av
      \<and> decodes vst1 = (if cached vst (get_iteration_coordinate d c) = None
                         then Suc (decodes vst) else decodes vst)
      \<and> derivative_get_case d store c vst1 = (Inr av, vst1))
   \<and> (system_get_case d store c yst = (Inr ay, yst1) \<longrightarrow>
      cached yst1 (get_iteration_coordinate d c) = Some ay
      \<and> decodes yst1 = (if cached yst (get_iteration_coordinate d c) = None
                         then Suc (decodes yst) else decodes yst)
      \<and> system_get_case d store c yst1 = (Inr ay, yst1))
   \<and> (solver_get_case d store c sst = (Inr as, sst1) \<longrightarrow>
      cached sst1 (get_iteration_coordinate d c) = Some as
      \<and> decodes sst1 = (if cached sst (get_iteration_coordinate d c) = None
                         then Suc (decodes sst) else decodes sst)
      \<and> solver_get_case d store c sst1 = (Inr as, sst1))
   \<and> (problem_get_case d store name pst = (Inr ap, pst1) \<longrightarrow>
      cached pst1 name = Some ap
      \<and> decodes pst1 = (if cached pst name = None then Suc (decodes pst) else decodes pst)
      \<and> problem_get_case d store name pst1 = (Inr ap, pst1))
   \<and> (driver_get_case d store c True tst = (Inr b, tst1) \<longrightarrow>
      (\<exists>tst2. driver_get_case d store c True tst1 = (Inr (Suc b), tst2)
               \<and> decodes tst2 = decodes tst1 \<and> cached tst2 = cached tst1))"
proof (intro conjI impI)
  assume h: "driver_get_case d store c False dst = (Inr a, dst1)"
  show "cached dst1 (get_iteration_coordinate d c) = Some a"
    by (rule driver_get_case_unscaled_caches [OF h])
  then show "driver_get_case d store c False dst1 = (Inr a, dst1)"
    by (rule driver_get_case_cached)
  show "decodes dst1 = (if cached dst (get_iteration_coordinate d c) = None
                         then Suc (decodes dst) else decodes dst)"
    by (rule driver_get_case_decodes [OF h])
next
  assume h: "derivative_get_case d store c vst = (Inr av, vst1)"
  show "cached vst1 (get_iteration_coordinate d c) = Some av"
    by (rule derivative_get_case_caches [OF h])
  then show "derivative_get_case d store c vst1 = (Inr av, vst1)"
    by (rule derivative_get_case_cached)
  show "decodes vst1 = (if cached vst (get_iteration_coordinate d c) = None
                         then Suc (decodes vst) else decodes vst)"
    by (rule derivative_get_case_decodes [OF h])
next
  assume h: "system_get_case d store c yst = (Inr ay, yst1)"
  show "cached yst1 (get_iteration_coordinate d c) = Some ay"
    by (rule system_get_case_caches [OF h])
  then show "system_get_case d store c yst1 = (Inr ay, yst1)"
    by (rule system_get_case_cached)
  show "decodes yst1 = (if cached yst (get_iteration_coordinate d c) = None
                         then Suc (decodes yst) else decodes yst)"
    by (rule system_get_case_decodes [OF h])
next
  assume h: "solver_get_case d store c sst = (Inr as, sst1)"
  show "cached sst1 (get_iteration_coordinate d c) = Some as"
    by (rule solver_get_case_caches [OF h])
  then show "solver_get_case d store c sst1 = (Inr as, sst1)"
    by (rule solver_get_case_cached)
  show "decodes sst1 = (if cached sst (get_iteration_coordinate d c) = None
                         then Suc (decodes sst) else decodes sst)"
    by (rule solver_get_case_decodes [OF h])
next
  assume h: "problem_get_case d store name pst = (Inr ap, pst1)"
  show "cached pst1 name = Some ap"
    by (rule problem_get_case_caches [OF h])
  then show "problem_get_case d store name pst1 = (Inr ap, pst1)"
    by (rule problem_get_case_cached)
  show "decodes pst1 = (if cached pst name = None then Suc (decodes pst) else decodes pst)"
    by (rule problem_get_case_decodes [OF h])
next
  assume "driver_get_case d store c True tst = (Inr b, tst1)"
  then show "\<exists>tst2. driver_get_case d store c True tst1 = (Inr (Suc b), tst2)
               \<and> decodes tst2 = decodes tst1 \<and> cached tst2 = cached tst1"
    by (rule driver_get_case_scaled_again)
qed

theorem get_case_again_returns_cached_case_witness:
  "fst (driver_get_case example_deps full_store ''rank0:SLSQP|0'' False new_cases) = Inr 0
   \<and> decodes (snd (driver_get_case example_deps full_store ''rank0:SLSQP|0'' False
                      new_cases)) = 1
   \<and> driver_get_case example_deps full_store ''rank0:SLSQP|0'' False
         (snd (driver_get_case example_deps full_store ''rank0:SLSQP|0'' False new_cases))
       = (Inr 0, snd (driver_get_case example_deps full_store ''rank0:SLSQP|0'' False new_cases))
   \<and> fst (derivative_get_case example_deps full_store ''rank0:SLSQP|0'' new_cases) = Inr 0
   \<and> derivative_get_case example_deps full_store ''rank0:SLSQP|0''
         (snd (derivative_get_case example_deps full_store ''rank0:SLSQP|0'' new_cases))
       = (Inr 0, snd (derivative_get_case example_deps full_store ''rank0:SLSQP|0'' new_cases))
   \<and> fst (system_get_case example_deps full_store ''rank0:SLSQP|0|root._solve_nonlinear|0''
             new_cases) = Inr 0
   \<and> system_get_case example_deps full_store ''rank0:SLSQP|0|root._solve_nonlinear|0''
         (snd (system_get_case example_deps full_store
                 ''rank0:SLSQP|0|root._solve_nonlinear|0'' new_cases))
       = (Inr 0, snd (system_get_case example_deps full_store
                        ''rank0:SLSQP|0|root._solve_nonlinear|0'' new_cases))
   \<and> fst (solver_get_case example_deps full_store
             ''rank0:SLSQP|0|root._solve_nonlinear|0|NLRunOnce|0'' new_cases) = Inr 0
   \<and> solver_get_case example_deps full_store
         ''rank0:SLSQP|0|root._solve_nonlinear|0|NLRunOnce|0''
         (snd (solver_get_case example_deps full_store
                 ''rank0:SLSQP|0|root._solve_nonlinear|0|NLRunOnce|0'' new_cases))
       = (Inr 0, snd (solver_get_case example_deps full_store
                        ''rank0:SLSQP|0|root._solve_nonlinear|0|NLRunOnce|0'' new_cases))
   \<and> fst (problem_get_case example_deps full_store ''final'' new_cases) = Inr 0
   \<and> problem_get_case example_deps full_store ''final''
         (snd (problem_get_case example_deps full_store ''final'' new_cases))
       = (Inr 0, snd (problem_get_case example_deps full_store ''final'' new_cases))
   \<and> fst (driver_get_case example_deps full_store ''rank0:SLSQP|0'' True new_cases) = Inr 1
   \<and> fst (driver_get_case example_deps full_store ''rank0:SLSQP|0'' True
             (snd (driver_get_case example_deps full_store ''rank0:SLSQP|0'' True new_cases)))
       = Inr 2"
proof -
  let ?dc = "driver_get_case example_deps full_store ''rank0:SLSQP|0'' False new_cases"
  let ?vc = "derivative_get_case example_deps full_store ''rank0:SLSQP|0'' new_cases"
  let ?yc = "system_get_case example_deps full_store
               ''rank0:SLSQP|0|root._solve_nonlinear|0'' new_cases"
  let ?sc = "solver_get_case example_deps full_store
               ''rank0:SLSQP|0|root._solve_nonlinear|0|NLRunOnce|0'' new_cases"
  let ?pc = "problem_get_case example_deps full_store ''final'' new_cases"
  let ?tc = "driver_get_case example_deps full_store ''rank0:SLSQP|0'' True new_cases"
  note store = example_deps_def full_store_def sellar_store_def new_cases_def mk_row_def
    fetchone_def decode_def Let_def
  have d: "fst ?dc = Inr 0"
    by (simp add: driver_get_case_def driver_extract_case_from_row_def store)
  have v: "fst ?vc = Inr 0"
    by (simp add: derivative_get_case_def derivative_extract_case_from_row_def store)
  have y: "fst ?yc = Inr 0"
    by (simp add: system_get_case_def system_extract_case_from_row_def store)
  have s: "fst ?sc = Inr 0"
    by (simp add: solver_get_case_def solver_extract_case_from_row_def store)
  have p: "fst ?pc = Inr 0"
    by (simp add: problem_get_case_def problem_extract_case_from_row_def store)
  have t: "fst ?tc = Inr 1"
    by (simp add: driver_get_case_def driver_extract_case_from_row_def store)
  have d': "?dc = (Inr 0, snd ?dc)" using d by (simp add: prod_eq_iff)
  have v': "?vc = (Inr 0, snd ?vc)" using v by (simp add: prod_eq_iff)
  have y': "?yc = (Inr 0, snd ?yc)" using y by (simp add: prod_eq_iff)
  have s': "?sc = (Inr 0, snd ?sc)" using s by (simp add: prod_eq_iff)
  have p': "?pc = (Inr 0, snd ?pc)" using p by (simp add: prod_eq_iff)
  have t': "?tc = (Inr 1, snd ?tc)" using t by (simp add: prod_eq_iff)
  have none: "cached (new_cases :: (string \<times> string) case_obj cases_state)
                (get_iteration_coordinate example_deps ''rank0:SLSQP|0'') = None"
    and zero: "decodes (new_cases :: (string \<times> string) case_obj cases_state) = 0"
    by (simp_all add: new_cases_def)
  note inst = get_case_again_returns_cached_case
    [where d = example_deps and store = full_store]
  from inst [THEN conjunct1, rule_format, OF d'] none zero
  have d2: "decodes (snd ?dc) = 1" "driver_get_case example_deps full_store ''rank0:SLSQP|0''
              False (snd ?dc) = (Inr 0, snd ?dc)"
    by simp_all
  from inst [THEN conjunct2, THEN conjunct1, rule_format, OF v']
  have v2: "derivative_get_case example_deps full_store ''rank0:SLSQP|0'' (snd ?vc)
              = (Inr 0, snd ?vc)"
    by simp
  from inst [THEN conjunct2, THEN conjunct2, THEN conjunct1, rule_format, OF y']
  have y2: "system_get_case example_deps full_store ''rank0:SLSQP|0|root._solve_nonlinear|0''
              (snd ?yc) = (Inr 0, snd ?yc)"
    by simp
  from inst [THEN conjunct2, THEN conjunct2, THEN conjunct2, THEN conjunct1, rule_format, OF s']
  have s2: "solver_get_case example_deps full_store
              ''rank0:SLSQP|0|root._solve_nonlinear|0|NLRunOnce|0'' (snd ?sc)
              = (Inr 0, snd ?sc)"
    by simp
  from inst [THEN conjunct2, THEN conjunct2, THEN conjunct2, THEN conjunct2, THEN conjunct1,
            rule_format, OF p']
  have p2: "problem_get_case example_deps full_store ''final'' (snd ?pc) = (Inr 0, snd ?pc)"
    by simp
  from inst [THEN conjunct2, THEN conjunct2, THEN conjunct2, THEN conjunct2, THEN conjunct2,
            rule_format, OF t']
  have t2: "fst (driver_get_case example_deps full_store ''rank0:SLSQP|0'' True (snd ?tc))
              = Inr 2"
    by (auto simp: numeral_2_eq_2)
  from d d2 v v2 y y2 s s2 p p2 t t2 show ?thesis by simp
qed

text \<open>
  C8 as stated fails for the driver store's scaled cases: on \<open>full_store\<close> two calls with
  \<^verbatim>\<open>scaled=True\<close> on the same coordinate return the references 1 and 2, two copies,
  while the cached case is the object 0.
\<close>

theorem get_case_twice_scaled_counterexample:
  "fst (driver_get_case example_deps full_store ''rank0:SLSQP|0'' True new_cases) = Inr 1
   \<and> fst (driver_get_case example_deps full_store ''rank0:SLSQP|0'' True
             (snd (driver_get_case example_deps full_store ''rank0:SLSQP|0'' True new_cases)))
       = Inr 2
   \<and> cached (snd (driver_get_case example_deps full_store ''rank0:SLSQP|0'' True new_cases))
         ''rank0:SLSQP|0'' = Some 0"
  by (simp add: driver_get_case_def driver_extract_case_from_row_def example_deps_def
        full_store_def sellar_store_def new_cases_def mk_row_def fetchone_def decode_def
        mk_case_def Let_def)

section \<open>Looking up a coordinate that has no row\<close>

text \<open>
  C5, amended. In a category store whose cache holds only coordinates of rows of its table
  (the empty cache does, and \<^verbatim>\<open>get_case\<close> keeps it so), \<^verbatim>\<open>get_case\<close> on a coordinate
  (or problem case name) that no row has fails with the \<open>TypeError\<close> of unpacking the
  missing row, raised to the caller with the store unchanged; no case and no default
  value is returned. The source has no \<open>CaseNotFound\<close> error.
\<close>

theorem get_case_without_row_fails:
  "(driver_iterations store = Some drows
      \<and> dom (cached dst) \<subseteq> iteration_coordinate ` set drows
      \<and> get_iteration_coordinate d c \<notin> iteration_coordinate ` set drows
      \<longrightarrow> driver_get_case d store c scaled dst = (Inl TypeError, dst))
   \<and> (solver_iterations store = Some srows
      \<and> dom (cached sst) \<subseteq> iteration_coordinate ` set srows
      \<and> get_iteration_coordinate d c \<notin> iteration_coordinate ` set srows
      \<longrightarrow> solver_get_case d store c sst = (Inl TypeError, sst))
   \<and> (problem_cases store = Some prows
      \<and> dom (cached pst) \<subseteq> iteration_coordinate ` set prows
      \<and> name \<notin> iteration_coordinate ` set prows
      \<longrightarrow> problem_get_case d store name pst = (Inl TypeError, pst))"
proof (intro conjI impI)
  assume "driver_iterations store = Some drows
      \<and> dom (cached dst) \<subseteq> iteration_coordinate ` set drows
      \<and> get_iteration_coordinate d c \<notin> iteration_coordinate ` set drows"
  then show "driver_get_case d store c scaled dst = (Inl TypeError, dst)"
    by (simp add: driver_get_case_missing)
next
  assume "solver_iterations store = Some srows
      \<and> dom (cached sst) \<subseteq> iteration_coordinate ` set srows
      \<and> get_iteration_coordinate d c \<notin> iteration_coordinate ` set srows"
  then show "solver_get_case d store c sst = (Inl TypeError, sst)"
    by (simp add: solver_get_case_missing)
next
  assume "problem_cases store = Some prows
      \<and> dom (cached pst) \<subseteq> iteration_coordinate ` set prows
      \<and> name \<notin> iteration_coordinate ` set prows"
  then show "problem_get_case d store name pst = (Inl TypeError, pst)"
    by (simp add: problem_get_case_missing)
qed

theorem get_case_without_row_fails_witness:
  "get_iteration_coordinate example_deps ''rank0:SLSQP|7''
     \<notin> iteration_coordinate ` set (the (driver_iterations sellar_store))
   \<and> driver_get_case example_deps sellar_store ''rank0:SLSQP|7'' False new_cases
       = (Inl TypeError, new_cases)
   \<and> get_iteration_coordinate example_deps ''rank0:SLSQP|7''
       \<notin> iteration_coordinate ` set (the (solver_iterations sellar_store))
   \<and> solver_get_case example_deps sellar_store ''rank0:SLSQP|7'' new_cases
       = (Inl TypeError, new_cases)
   \<and> ''final'' \<notin> iteration_coordinate ` set (the (problem_cases sellar_store))
   \<and> problem_get_case example_deps sellar_store ''final'' new_cases
       = (Inl TypeError, new_cases)"
proof -
  have d1: "driver_iterations sellar_store = Some (the (driver_iterations sellar_store))"
    and s1: "solver_iterations sellar_store = Some (the (solver_iterations sellar_store))"
    and p1: "problem_cases sellar_store = Some (the (problem_cases sellar_store))"
    by (simp_all add: sellar_store_def)
  have d2: "dom (cached (new_cases :: (string \<times> string) case_obj cases_state))
              \<subseteq> iteration_coordinate ` set (the (driver_iterations sellar_store))"
    and s2: "dom (cached (new_cases ::
                (real \<times> real \<times> string \<times> string \<times> string) case_obj cases_state))
              \<subseteq> iteration_coordinate ` set (the (solver_iterations sellar_store))"
    and p2: "dom (cached (new_cases :: string case_obj cases_state))
              \<subseteq> iteration_coordinate ` set (the (problem_cases sellar_store))"
    by (simp_all add: new_cases_def)
  have d3: "get_iteration_coordinate example_deps ''rank0:SLSQP|7''
              \<notin> iteration_coordinate ` set (the (driver_iterations sellar_store))"
    and s3: "get_iteration_coordinate example_deps ''rank0:SLSQP|7''
              \<notin> iteration_coordinate ` set (the (solver_iterations sellar_store))"
    and p3: "''final'' \<notin> iteration_coordinate ` set (the (problem_cases sellar_store))"
    by (simp_all add: sellar_store_def example_deps_def mk_row_def)
  from get_case_without_row_fails
         [of sellar_store "the (driver_iterations sellar_store)" new_cases example_deps
             "''rank0:SLSQP|7''" False "the (solver_iterations sellar_store)" new_cases
             "the (problem_cases sellar_store)" new_cases "''final''"]
       d1 d2 d3 s1 s2 s3 p1 p2 p3
  show ?thesis by blast
qed

text \<open>
  C5 as stated fails: the error of a driver lookup without a row is not \<open>CaseNotFound\<close>.
\<close>

theorem get_case_without_row_counterexample:
  "fst (driver_get_case example_deps sellar_store ''rank0:SLSQP|7'' False new_cases)
     = Inl TypeError
   \<and> fst (driver_get_case example_deps sellar_store ''rank0:SLSQP|7'' False new_cases)
     \<noteq> Inl CaseNotFound"
  by (simp add: driver_get_case_def example_deps_def sellar_store_def new_cases_def mk_row_def
        fetchone_def Let_def)

section \<open>Scaled cases\<close>

text \<open>
  C9. In a driver store whose cached references point to constructed objects, a
  \<^verbatim>\<open>get_case\<close> with \<^verbatim>\<open>scaled=True\<close> that returns a reference \<open>b\<close> has scaled a new
  object: the cache still maps the coordinate to the reference \<open>a\<close> that the unscaled call
  returns, \<open>a\<close> is not \<open>b\<close>, the object at \<open>a\<close> is the one the unscaled call leaves there,
  the object at \<open>b\<close> is its scaled copy, and a later unscaled \<^verbatim>\<open>get_case\<close> on the same
  coordinate returns \<open>a\<close> without changing the store.
\<close>

theorem scaled_case_is_a_copy:
  assumes "\<forall>k a. cached st k = Some a \<longrightarrow> a < length (objs st)"
    and "driver_get_case d store c True st = (Inr b, st1)"
  shows "\<exists>a st0. driver_get_case d store c False st = (Inr a, st0)
           \<and> cached st1 (get_iteration_coordinate d c) = Some a
           \<and> a \<noteq> b
           \<and> objs st1 ! a = objs st0 ! a
           \<and> objs st1 ! b = scale d (objs st0 ! a)
           \<and> driver_get_case d store c False st1 = (Inr a, st1)"
proof -
  obtain r st0 where u: "driver_get_case d store c False st = (r, st0)"
    by (cases "driver_get_case d store c False st")
  with assms(2) obtain a where r: "r = Inr a"
    by (cases r) (simp_all add: driver_get_case_scaled_eq)
  from assms(2) u r have b: "b = length (objs st0)"
    and st1: "st1 = st0\<lparr> objs := objs st0 @ [scale d (objs st0 ! a)] \<rparr>"
    by (simp_all add: driver_get_case_scaled_eq)
  from u r have u': "driver_get_case d store c False st = (Inr a, st0)" by simp
  have lt: "a < length (objs st0)" by (rule driver_get_case_ref_valid [OF assms(1) u'])
  have c0: "cached st0 (get_iteration_coordinate d c) = Some a"
    by (rule driver_get_case_unscaled_caches [OF u'])
  then have c1: "cached st1 (get_iteration_coordinate d c) = Some a" by (simp add: st1)
  have "driver_get_case d store c False st1 = (Inr a, st1)"
    by (rule driver_get_case_cached [OF c1])
  moreover have "objs st1 ! a = objs st0 ! a" using lt by (simp add: st1 nth_append)
  moreover have "objs st1 ! b = scale d (objs st0 ! a)" by (simp add: st1 b)
  moreover have "a \<noteq> b" using lt b by simp
  ultimately show ?thesis using u' c1 by blast
qed

theorem scaled_case_is_a_copy_witness:
  "fst (driver_get_case example_deps sellar_store ''rank0:SLSQP|0'' True new_cases) = Inr 1
   \<and> vals (objs (snd (driver_get_case example_deps sellar_store ''rank0:SLSQP|0'' True
                       new_cases)) ! 1) = (''scaled {}'', ''scaled {}'')
   \<and> vals (objs (snd (driver_get_case example_deps sellar_store ''rank0:SLSQP|0'' True
                       new_cases)) ! 0) = (''{}'', ''{}'')
   \<and> driver_get_case example_deps sellar_store ''rank0:SLSQP|0'' False
        (snd (driver_get_case example_deps sellar_store ''rank0:SLSQP|0'' True new_cases))
      = (Inr 0, snd (driver_get_case example_deps sellar_store ''rank0:SLSQP|0'' True new_cases))"
proof -
  let ?r = "driver_get_case example_deps sellar_store ''rank0:SLSQP|0'' True new_cases"
  have wf: "\<forall>k a. cached (new_cases :: (string \<times> string) case_obj cases_state) k = Some a
              \<longrightarrow> a < length (objs (new_cases :: (string \<times> string) case_obj cases_state))"
    by (simp add: new_cases_def)
  have ev: "fst ?r = Inr 1"
    "vals (objs (snd ?r) ! 1) = (''scaled {}'', ''scaled {}'')"
    "vals (objs (snd ?r) ! 0) = (''{}'', ''{}'')"
    "cached (snd ?r) (get_iteration_coordinate example_deps ''rank0:SLSQP|0'') = Some 0"
    by (simp_all add: driver_get_case_def example_deps_def sellar_store_def new_cases_def
          mk_row_def fetchone_def driver_extract_case_from_row_def decode_def mk_case_def Let_def)
  then have eq: "?r = (Inr 1, snd ?r)" by (simp add: prod_eq_iff)
  from scaled_case_is_a_copy [OF wf eq] ev show ?thesis by auto
qed

section \<open>Tables that older stores lack\<close>

lemma keys_of_optional_empty:
  "keys_of_optional v (Some []) = Inr []"
  by (simp add: keys_of_optional_def keys_of_def)

lemma keys_of_optional_absent_ge2:
  "2 \<le> v \<Longrightarrow> keys_of_optional v None = Inl OperationalError"
  by (simp add: keys_of_optional_def keys_of_def)

lemma keys_of_optional_absent_v1:
  "keys_of_optional 1 None = Inr []"
  by (simp add: keys_of_optional_def keys_of_def initial_case_keys_def)

lemma keys_of_error: "keys_of tbl = Inl e \<Longrightarrow> e = OperationalError"
  by (cases tbl) (simp_all add: keys_of_def)

lemma keys_of_optional_error: "keys_of_optional v tbl = Inl e \<Longrightarrow> e = OperationalError"
  by (cases tbl) (simp_all add: keys_of_optional_def keys_of_def split: if_splits)

lemma load_v1_without_derivatives:
  "format_version store = 1 \<Longrightarrow>
   load d (store\<lparr> driver_derivatives := None \<rparr>) = load d (store\<lparr> driver_derivatives := Some [] \<rparr>)"
  by (simp add: load_def keys_of_optional_absent_v1 keys_of_optional_empty cong: sum.case_cong)

lemma load_v1_without_problem_cases:
  "format_version store = 1 \<Longrightarrow>
   load d (store\<lparr> problem_cases := None \<rparr>) = load d (store\<lparr> problem_cases := Some [] \<rparr>)"
  by (simp add: load_def keys_of_optional_absent_v1 keys_of_optional_empty cong: sum.case_cong)

lemma load_v1_keys_empty:
  assumes "format_version store = 1" and "load d store = Inr l"
  shows "(driver_derivatives store = None \<longrightarrow> derivative_keys l = [])
         \<and> (problem_cases store = None \<longrightarrow> problem_keys l = [])"
  using assms
  by (auto simp: load_def Let_def keys_of_optional_absent_v1 split: if_splits sum.splits)

lemma load_ge2_absent:
  assumes "2 \<le> format_version store"
    and "format_version store \<le> recorder_format_version d"
    and "driver_derivatives store = None \<or> problem_cases store = None"
  shows "load d store = Inl OperationalError"
  using assms
  by (auto simp: load_def Let_def keys_of_optional_absent_ge2
           split: sum.splits dest: keys_of_error keys_of_optional_error)

lemma load_beyond_recorder:
  "recorder_format_version d < format_version store \<Longrightarrow> load d store = Inl ValueError"
  by (simp add: load_def)

text \<open>
  C7. For a store of format version 1, \<^verbatim>\<open>_load\<close> treats a missing
  \<^verbatim>\<open>driver_derivatives\<close> or \<^verbatim>\<open>problem_cases\<close> table as it treats an empty one, so
  the absence is not an error, and when it returns the keys of the missing table's store
  are the empty list. For a store of format version 2 or more that lacks either table
  \<^verbatim>\<open>_load\<close> fails: with the \<open>OperationalError\<close> of a query when the version is one the
  recorder knows, with the \<open>ValueError\<close> of the version check otherwise.
\<close>

theorem load_optional_tables:
  "(format_version store = 1 \<longrightarrow>
      load d (store\<lparr> driver_derivatives := None \<rparr>)
        = load d (store\<lparr> driver_derivatives := Some [] \<rparr>)
      \<and> load d (store\<lparr> problem_cases := None \<rparr>)
        = load d (store\<lparr> problem_cases := Some [] \<rparr>))
   \<and> (format_version store = 1 \<and> load d store = Inr l \<longrightarrow>
        (driver_derivatives store = None \<longrightarrow> derivative_keys l = [])
        \<and> (problem_cases store = None \<longrightarrow> problem_keys l = []))
   \<and> (2 \<le> format_version store
        \<and> (driver_derivatives store = None \<or> problem_cases store = None) \<longrightarrow>
        load d store = Inl (if format_version store \<le> recorder_format_version d
                            then OperationalError else ValueError))"
proof (intro conjI impI)
  assume "2 \<le> format_version store
        \<and> (driver_derivatives store = None \<or> problem_cases store = None)"
  then show "load d store = Inl (if format_version store \<le> recorder_format_version d
                            then OperationalError else ValueError)"
    by (cases "format_version store \<le> recorder_format_version d")
       (simp_all add: load_ge2_absent load_beyond_recorder)
next
  assume h: "format_version store = 1 \<and> load d store = Inr l"
  {
    assume "driver_derivatives store = None"
    then show "derivative_keys l = []" using h load_v1_keys_empty by blast
  }
  {
    assume "problem_cases store = None"
    then show "problem_keys l = []" using h load_v1_keys_empty by blast
  }
qed (simp_all add: load_v1_without_derivatives load_v1_without_problem_cases)

theorem load_optional_tables_witness:
  "format_version legacy_store = 1
   \<and> driver_derivatives legacy_store = None \<and> problem_cases legacy_store = None
   \<and> map_sum id (\<lambda>l. (driver_keys l, derivative_keys l, system_keys l, solver_keys l,
                       problem_keys l)) (load example_deps legacy_store)
       = Inr ([''rank0:SLSQP|0''], [], [''rank0:SLSQP|0|root._solve_nonlinear|0''],
              [''rank0:SLSQP|0|root._solve_nonlinear|0|NLRunOnce|0''], [])
   \<and> 2 \<le> format_version truncated_store
   \<and> driver_derivatives truncated_store = None
   \<and> load example_deps truncated_store = Inl OperationalError"
proof -
  have v1: "format_version legacy_store = 1"
    and a1: "driver_derivatives legacy_store = None" "problem_cases legacy_store = None"
    by (simp_all add: legacy_store_def)
  have v2: "2 \<le> format_version truncated_store"
    and a2: "driver_derivatives truncated_store = None"
    and r2: "format_version truncated_store \<le> recorder_format_version example_deps"
    by (simp_all add: truncated_store_def sellar_store_def example_deps_def)
  have ok: "map_sum id (\<lambda>l. (driver_keys l, system_keys l, solver_keys l))
              (load example_deps legacy_store)
            = Inr ([''rank0:SLSQP|0''], [''rank0:SLSQP|0|root._solve_nonlinear|0''],
                   [''rank0:SLSQP|0|root._solve_nonlinear|0|NLRunOnce|0''])"
    by (simp add: load_def legacy_store_def sellar_store_def example_deps_def mk_row_def
          keys_of_def keys_of_optional_def initial_case_keys_def read_driver_metadata_def
          read_metadata_table_def)
  then obtain l where l: "load example_deps legacy_store = Inr l"
    by (cases "load example_deps legacy_store") simp_all
  from load_optional_tables [of legacy_store example_deps l] v1 a1 l
  have "derivative_keys l = []" and "problem_keys l = []" by blast+
  moreover from load_optional_tables [of truncated_store example_deps] v2 a2 r2
  have "load example_deps truncated_store = Inl OperationalError" by simp
  ultimately show ?thesis using v1 a1 v2 a2 ok l by simp
qed

section \<open>The tables that a query of the hierarchy reads\<close>

text \<open>
  The pairs that \<^verbatim>\<open>_find_child_cases\<close> returns come from the two lists it is given, and
  the last loop of \<^verbatim>\<open>get_cases\<close> fetches each of them from the driver or the solver
  store, which read their own table.
\<close>

lemma gather_within:
  assumes "gather keep tag sub xs = Some (Inr res)"
    and "\<And>x ds. x \<in> set xs \<Longrightarrow> sub x = Some (Inr ds) \<Longrightarrow> set ds \<subseteq> S"
    and "tag ` set xs \<subseteq> S"
  shows "set res \<subseteq> S"
  using assms
proof (induction xs arbitrary: res)
  case Nil
  then show ?case by simp
next
  case (Cons x xs)
  have p2: "set ds \<subseteq> S" if "y \<in> set (x # xs)" and "sub y = Some (Inr ds)" for y ds
    using Cons.prems(2) that by blast
  have p3: "tag x \<in> S" "tag ` set xs \<subseteq> S" using Cons.prems(3) by simp_all
  show ?case
  proof (cases "keep x")
    case False
    with Cons.prems(1) have g: "gather keep tag sub xs = Some (Inr res)" by simp
    show ?thesis 
    proof (rule Cons.IH [OF g])
      show "tag ` set xs \<subseteq> S" by (rule p3(2))
    next
      fix y ds assume "y \<in> set xs" and "sub y = Some (Inr ds)"
      then show "set ds \<subseteq> S" using p2 [of y ds] by simp
    qed
  next
    case True
    with Cons.prems(1) obtain ds ret where
        ds: "sub x = Some (Inr ds)" and ret: "gather keep tag sub xs = Some (Inr ret)"
      and res: "res = tag x # ds @ ret"
      by (auto split: option.splits sum.splits)
    have "set ds \<subseteq> S" using p2 [of x ds] ds by simp
    moreover have "set ret \<subseteq> S"
      
    proof (rule Cons.IH [OF ret])
      show "tag ` set xs \<subseteq> S" by (rule p3(2))
    next
      fix y ds assume "y \<in> set xs" and "sub y = Some (Inr ds)"
      then show "set ds \<subseteq> S" using p2 [of y ds] by simp
    qed
    ultimately show ?thesis using res p3 by simp
  qed
qed

lemma find_child_cases_pairs:
  "find_child_cases depth p sp driver_iter solver_iter recursive cl = Some (Inr res)
     \<Longrightarrow> set res \<subseteq> (\<lambda>d. (d, Driver)) ` set driver_iter
                    \<union> (\<lambda>s. (fst s, Solver)) ` set solver_iter"
proof (induction depth arbitrary: p sp res)
  case 0
  then show ?case by simp
next
  case (Suc n)
  let ?S = "(\<lambda>d. (d, Driver)) ` set driver_iter \<union> (\<lambda>s. (fst s, Solver)) ` set solver_iter"
  let ?sub = "\<lambda>c. if recursive
                   then find_child_cases n c (coord_split c) driver_iter solver_iter
                          recursive cl
                   else Some (Inr [])"
  have sub: "?sub c = Some (Inr ds) \<Longrightarrow> set ds \<subseteq> ?S" for c ds
    using Suc.IH by (cases recursive) (auto simp del: find_child_cases.simps)
  have within: "gather keep tag (\<lambda>x. ?sub (f x)) xs = Some (Inr res)
                  \<Longrightarrow> tag ` set xs \<subseteq> ?S \<Longrightarrow> set res \<subseteq> ?S"
    for keep :: "'a \<Rightarrow> bool" and tag :: "'a \<Rightarrow> string \<times> iter_type" and f xs
    by (erule gather_within) (rule sub, assumption)
  from Suc.prems obtain L where L: "expected_child_length cl sp = Inr L"
    by (cases "expected_child_length cl sp") simp_all
  show ?case
  proof (cases "p = []")
    case False
    with Suc.prems L have
      "gather (\<lambda>s. is_case_child p (fst s) L) (\<lambda>s. (fst s, Solver))
         (\<lambda>s. ?sub (fst s)) solver_iter = Some (Inr res)"
      by simp
    then show ?thesis by (rule within) auto
  next
    case True
    show ?thesis
    proof (cases "0 < length driver_iter")
      case d: True
      with Suc.prems L True have
        "gather (\<lambda>d. True) (\<lambda>d. (d, Driver)) (\<lambda>d. ?sub d) driver_iter = Some (Inr res)"
        by simp
      then show ?thesis by (rule within) auto
    next
      case d: False
      show ?thesis
      proof (cases "0 < length solver_iter")
        case False
        with Suc.prems L True d show ?thesis by simp
      next
        case True': True
        with Suc.prems L True d have
          "gather (\<lambda>s. is_int (int (length (coord_split (fst s))))
                      (if 1 < length cl then cl ! 1 else - 1))
             (\<lambda>s. (fst s, Solver)) (\<lambda>s. ?sub (fst s)) solver_iter = Some (Inr res)"
          by simp
        then show ?thesis by (rule within) auto
      qed
    qed
  qed
qed

lemma driver_get_case_other_tables:
  "driver_get_case d (store\<lparr> driver_derivatives := t1, system_iterations := t2,
                            problem_cases := t3 \<rparr>) c scaled st
   = driver_get_case d store c scaled st"
  by (simp add: driver_get_case_def Let_def cong: option.case_cong sum.case_cong)

lemma solver_get_case_other_tables:
  "solver_get_case d (store\<lparr> driver_derivatives := t1, system_iterations := t2,
                            problem_cases := t3 \<rparr>) c st
   = solver_get_case d store c st"
  by (simp add: solver_get_case_def Let_def cong: option.case_cong sum.case_cong)

lemma yield_cases_other_tables:
  "yield_cases d (store\<lparr> driver_derivatives := t1, system_iterations := t2,
                          problem_cases := t3 \<rparr>) iter_set rd
   = yield_cases d store iter_set rd"
  by (induction iter_set arbitrary: rd)
     (simp_all add: driver_get_case_other_tables solver_get_case_other_tables
        cong: prod.case_cong sum.case_cong)

lemma yield_cases_refs:
  "yield_cases d store iter_set rd = (Inr refs, rd')
     \<Longrightarrow> set refs \<subseteq> range DriverCaseRef \<union> range SolverCaseRef"
proof (induction iter_set arbitrary: rd refs)
  case Nil
  then show ?case by simp
next
  case (Cons i iter_set)
  from Cons.prems show ?case
    by (auto split: if_splits prod.splits sum.splits dest!: Cons.IH)
qed

lemma get_cases_other_tables:
  "get_cases d (store\<lparr> driver_derivatives := t1, system_iterations := t2 \<rparr>) depth source
     recurse flat rd
   = get_cases d store depth source recurse flat rd"
proof -
  have "yield_cases d (store\<lparr> driver_derivatives := t1, system_iterations := t2 \<rparr>) i r
          = yield_cases d store i r" for i r
    using yield_cases_other_tables [where store = store and ?t3.0 = "problem_cases store"]
    by simp
  then show ?thesis
    by (simp add: get_cases_def Let_def cong: option.case_cong sum.case_cong prod.case_cong)
qed

text \<open>
  C4, amended. \<^verbatim>\<open>get_cases\<close> reads the driver and the solver table only, as its
  docstring says (``iterate over the driver and solver cases''): what it yields and the
  reader it leaves are the same whatever the system and the driver-derivative tables hold,
  and every pair that \<^verbatim>\<open>_find_child_cases\<close> returns is a driver coordinate tagged as a
  driver case or a solver coordinate tagged as a solver case, taken from the two lists it
  was given. So for no store does a recursive \<^verbatim>\<open>get_cases\<close> yield a system case.
\<close>

theorem get_cases_reads_driver_and_solver_only:
  "get_cases d (store\<lparr> driver_derivatives := t1, system_iterations := t2 \<rparr>) depth source
     recurse flat rd
   = get_cases d store depth source recurse flat rd
   \<and> (find_child_cases depth p sp driver_iter solver_iter recursive cl = Some (Inr res)
        \<longrightarrow> set res \<subseteq> (\<lambda>c. (c, Driver)) ` set driver_iter
                        \<union> (\<lambda>s. (fst s, Solver)) ` set solver_iter)"
proof (intro conjI impI)
  show "get_cases d (store\<lparr> driver_derivatives := t1, system_iterations := t2 \<rparr>) depth
          source recurse flat rd
        = get_cases d store depth source recurse flat rd"
    by (rule get_cases_other_tables)
next
  assume "find_child_cases depth p sp driver_iter solver_iter recursive cl = Some (Inr res)"
  then show "set res \<subseteq> (\<lambda>c. (c, Driver)) ` set driver_iter
                       \<union> (\<lambda>s. (fst s, Solver)) ` set solver_iter"
    by (rule find_child_cases_pairs)
qed

theorem get_cases_reads_driver_and_solver_only_witness:
  "get_cases example_deps (sellar_store\<lparr> driver_derivatives := None,
                                          system_iterations := None \<rparr>)
     10 ''rank0:SLSQP|0'' True True new_reader
   = get_cases example_deps sellar_store 10 ''rank0:SLSQP|0'' True True new_reader
   \<and> find_child_cases 10 ''rank0:SLSQP|0'' (coord_split ''rank0:SLSQP|0'')
        [''rank0:SLSQP|0''] [(''rank0:SLSQP|0|root._solve_nonlinear|0|NLRunOnce|0'', 1)]
        True [2, 4]
      = Some (Inr [(''rank0:SLSQP|0|root._solve_nonlinear|0|NLRunOnce|0'', Solver)])
   \<and> set [(''rank0:SLSQP|0|root._solve_nonlinear|0|NLRunOnce|0'', Solver)]
       \<subseteq> (\<lambda>c. (c, Driver)) ` set [''rank0:SLSQP|0'']
         \<union> (\<lambda>s. (fst s, Solver))
             ` set [(''rank0:SLSQP|0|root._solve_nonlinear|0|NLRunOnce|0'', 1 :: int)]"
proof -
  have f: "find_child_cases 10 ''rank0:SLSQP|0'' (coord_split ''rank0:SLSQP|0'')
             [''rank0:SLSQP|0''] [(''rank0:SLSQP|0|root._solve_nonlinear|0|NLRunOnce|0'', 1)]
             True [2, 4]
           = Some (Inr [(''rank0:SLSQP|0|root._solve_nonlinear|0|NLRunOnce|0'', Solver)])"
    by code_simp
  note inst = get_cases_reads_driver_and_solver_only
    [where d = example_deps and store = sellar_store and ?t1.0 = None and ?t2.0 = None
       and depth = 10 and source = "''rank0:SLSQP|0''" and recurse = True and flat = True
       and rd = new_reader and p = "''rank0:SLSQP|0''"
       and sp = "coord_split ''rank0:SLSQP|0''" and driver_iter = "[''rank0:SLSQP|0'']"
       and solver_iter = "[(''rank0:SLSQP|0|root._solve_nonlinear|0|NLRunOnce|0'', 1)]"
       and recursive = True and cl = "[2, 4]"
       and res = "[(''rank0:SLSQP|0|root._solve_nonlinear|0|NLRunOnce|0'', Solver)]"]
  from inst f show ?thesis by blast
qed

text \<open>
  C4 as stated fails on \<open>sellar_store\<close>, the rows of \<^verbatim>\<open>test_get_child_cases\<close>. Its system
  coordinate \<^verbatim>\<open>rank0:SLSQP|0|root._solve_nonlinear|0\<close> starts with the driver coordinate
  \<^verbatim>\<open>rank0:SLSQP|0\<close> and has the three segments that a child of that coordinate is
  expected to have when the lengths of all categories are counted, so it passes the
  prefix and length test. The recursive \<^verbatim>\<open>get_cases\<close> on the driver coordinate yields
  one case, the solver case, and creates no other object. The depth 10 is more than this
  recursion uses; by \<open>find_child_cases_deeper\<close> a greater depth returns the same pairs.
\<close>

theorem system_case_not_among_children_counterexample:
  "expected_child_length
     (spec_coord_lengths [''rank0:SLSQP|0''] [] [''rank0:SLSQP|0|root._solve_nonlinear|0'']
        [''rank0:SLSQP|0|root._solve_nonlinear|0|NLRunOnce|0''] [])
     (coord_split ''rank0:SLSQP|0'') = Inr 3
   \<and> is_case_child ''rank0:SLSQP|0'' ''rank0:SLSQP|0|root._solve_nonlinear|0'' 3
   \<and> map iteration_coordinate (the (system_iterations sellar_store))
       = [''rank0:SLSQP|0|root._solve_nonlinear|0'']
   \<and> fst (get_cases example_deps sellar_store 10 ''rank0:SLSQP|0'' True True new_reader)
       = Some (Inr [SolverCaseRef 0])
   \<and> map (\<lambda>c. case_iteration_coordinate c)
         (objs (solver_cases (snd (get_cases example_deps sellar_store 10 ''rank0:SLSQP|0''
                                     True True new_reader))))
       = [''rank0:SLSQP|0|root._solve_nonlinear|0|NLRunOnce|0'']
   \<and> objs (driver_cases (snd (get_cases example_deps sellar_store 10 ''rank0:SLSQP|0''
                                True True new_reader))) = []
   \<and> objs (problem_store (snd (get_cases example_deps sellar_store 10 ''rank0:SLSQP|0''
                                 True True new_reader))) = []"
  by code_simp

section \<open>The order of the cases of a recursive query\<close>

text \<open>
  C6. \<^verbatim>\<open>test_get_child_cases_system\<close> asserts that the counters of the cases yielded by
  \<^verbatim>\<open>get_cases(source='rank0:SLSQP|0|root._solve_nonlinear', recurse=True, flat=True)\<close>
  increase. On \<open>nested_store\<close> the source yields the outer solver iteration (counter 3)
  before the two inner iterations it contains (counters 1 and 2): a parent comes before
  its descendants, and the recorder writes it after them.
\<close>

theorem recursive_get_cases_counters_decrease:
  "fst (get_cases example_deps nested_store 10 ''rank0:SLSQP|0|root._solve_nonlinear''
          True True new_reader)
   = Some (Inr [SolverCaseRef 0, SolverCaseRef 1, SolverCaseRef 2])
   \<and> map (counter_of (snd (get_cases example_deps nested_store 10
                             ''rank0:SLSQP|0|root._solve_nonlinear'' True True new_reader)))
         [SolverCaseRef 0, SolverCaseRef 1, SolverCaseRef 2]
     = [3, 1, 2]"
  by code_simp

end
